theory Spec2Isabelle
  imports Complex_Main "HOL-Library.Word" "HOL-Library.Multiset" "HOL-Library.Product_Lexorder"
begin

unbundle bit_operations_syntax

section \<open>Camera: lazily recomputed projection state\<close>

text \<open>
  The \<open>Camera\<close> class of the second unit of \<open>src/unnamed/part_000\<close>. JavaScript
  numbers are read as exact reals. The \<open>Matrix\<close> class lives in the math package, which
  is not among the sources, so matrices are values of a type parameter \<open>'m\<close> and the two
  constructors the getter calls, \<open>Matrix.perspective\<close> and \<open>Matrix.ortho\<close>, are
  arguments of the getter. The canvas belongs to the engine and is passed in at each read.
  A \<open>BoolUpdateFlag\<close> is the boolean it holds.
\<close>

record canvas =
  canvas_width :: real
  canvas_height :: real

type_synonym vector4 = "real \<times> real \<times> real \<times> real"

record 'm virtualCamera =
  vc_viewMatrix :: 'm
  vc_projectionMatrix :: 'm
  vc_viewProjectionMatrix :: 'm
  vc_isOrthographic :: bool

record 'm camera =
  virtualCamera :: "'m virtualCamera"
  isProjMatSetting :: bool
  nearClipPlane :: real
  farClipPlane :: real
  fieldOfView :: real
  orthographicSize :: real
  isProjectionDirty :: bool
  isInvProjMatDirty :: bool
  isFrustumProjectDirty :: bool
  customAspectRatio :: "real option"
  frustumViewChangeFlag :: bool
  isViewMatrixDirty :: bool
  isInvViewProjDirty :: bool
  viewport :: vector4
  inverseProjectionMatrix :: 'm
  lastAspectSize :: "real \<times> real"
  invViewProjMat :: 'm

text \<open>
  The field initialisers and the constructor. \<open>new Matrix()\<close> is the identity matrix
  \<open>ident\<close>; the three flags registered with the transform start raised.
\<close>

definition newCamera :: "'m \<Rightarrow> 'm camera" where
  "newCamera ident =
     \<lparr> virtualCamera = \<lparr> vc_viewMatrix = ident, vc_projectionMatrix = ident,
                          vc_viewProjectionMatrix = ident, vc_isOrthographic = False \<rparr>,
       isProjMatSetting = False,
       nearClipPlane = 0.1,
       farClipPlane = 100,
       fieldOfView = 45,
       orthographicSize = 10,
       isProjectionDirty = True,
       isInvProjMatDirty = True,
       isFrustumProjectDirty = True,
       customAspectRatio = None,
       frustumViewChangeFlag = True,
       isViewMatrixDirty = True,
       isInvViewProjDirty = True,
       viewport = (0, 0, 1, 1),
       inverseProjectionMatrix = ident,
       lastAspectSize = (0, 0),
       invViewProjMat = ident \<rparr>"

definition projMatChange :: "'m camera \<Rightarrow> 'm camera" where
  "projMatChange c =
     c\<lparr> isFrustumProjectDirty := True,
        isProjectionDirty := True,
        isInvProjMatDirty := True,
        isInvViewProjDirty := True \<rparr>"

definition set_nearClipPlane :: "real \<Rightarrow> 'm camera \<Rightarrow> 'm camera" where
  "set_nearClipPlane v c = projMatChange (c\<lparr> nearClipPlane := v \<rparr>)"

definition set_farClipPlane :: "real \<Rightarrow> 'm camera \<Rightarrow> 'm camera" where
  "set_farClipPlane v c = projMatChange (c\<lparr> farClipPlane := v \<rparr>)"

definition set_fieldOfView :: "real \<Rightarrow> 'm camera \<Rightarrow> 'm camera" where
  "set_fieldOfView v c = projMatChange (c\<lparr> fieldOfView := v \<rparr>)"

definition get_aspectRatio :: "canvas \<Rightarrow> 'm camera \<Rightarrow> real" where
  "get_aspectRatio cv c =
     (case customAspectRatio c of
        Some r \<Rightarrow> r
      | None \<Rightarrow>
          (case viewport c of
             (vx, vy, vz, vw) \<Rightarrow> (canvas_width cv * vz) / (canvas_height cv * vw)))"

definition set_aspectRatio :: "real \<Rightarrow> 'm camera \<Rightarrow> 'm camera" where
  "set_aspectRatio v c = projMatChange (c\<lparr> customAspectRatio := Some v \<rparr>)"

text \<open>
  The viewport setter copies the four components unless it is handed the camera's own
  vector; either way the stored vector then equals the argument.
\<close>

definition set_viewport :: "vector4 \<Rightarrow> 'm camera \<Rightarrow> 'm camera" where
  "set_viewport v c = projMatChange (c\<lparr> viewport := v \<rparr>)"

definition get_isOrthographic :: "'m camera \<Rightarrow> bool" where
  "get_isOrthographic c = vc_isOrthographic (virtualCamera c)"

definition set_isOrthographic :: "bool \<Rightarrow> 'm camera \<Rightarrow> 'm camera" where
  "set_isOrthographic v c =
     projMatChange (c\<lparr> virtualCamera := (virtualCamera c)\<lparr> vc_isOrthographic := v \<rparr> \<rparr>)"

definition set_orthographicSize :: "real \<Rightarrow> 'm camera \<Rightarrow> 'm camera" where
  "set_orthographicSize v c = projMatChange (c\<lparr> orthographicSize := v \<rparr>)"

definition set_projectionMatrix :: "'m \<Rightarrow> 'm camera \<Rightarrow> 'm camera" where
  "set_projectionMatrix v c =
     projMatChange
       (c\<lparr> virtualCamera := (virtualCamera c)\<lparr> vc_projectionMatrix := v \<rparr>,
           isProjMatSetting := True \<rparr>)"

definition resetProjectionMatrix :: "'m camera \<Rightarrow> 'm camera" where
  "resetProjectionMatrix c = projMatChange (c\<lparr> isProjMatSetting := False \<rparr>)"

definition resetAspectRatio :: "'m camera \<Rightarrow> 'm camera" where
  "resetAspectRatio c = projMatChange (c\<lparr> customAspectRatio := None \<rparr>)"

text \<open>
  Modelled from the spec: \<open>MathUtil.degreeToRadian\<close> of the math package, the
  conversion of the field of view from degrees to radians.
\<close>

definition degreeToRadian :: "real \<Rightarrow> real" where
  "degreeToRadian d = d * (pi / 180)"

text \<open>
  The getter of \<open>projectionMatrix\<close>. It returns the matrix and the camera as the read
  leaves it. \<open>persp fovy aspect near far\<close> and \<open>orth left right bottom top near far\<close>
  stand for \<open>Matrix.perspective\<close> and \<open>Matrix.ortho\<close>, which overwrite the stored
  matrix.
\<close>

definition get_projectionMatrix ::
  "(real \<Rightarrow> real \<Rightarrow> real \<Rightarrow> real \<Rightarrow> 'm) \<Rightarrow>
   (real \<Rightarrow> real \<Rightarrow> real \<Rightarrow> real \<Rightarrow> real \<Rightarrow> real \<Rightarrow> 'm) \<Rightarrow>
   canvas \<Rightarrow> 'm camera \<Rightarrow> 'm \<times> 'm camera" where
  "get_projectionMatrix persp orth cv c =
     (if (\<not> isProjectionDirty c \<or> isProjMatSetting c) \<and>
         fst (lastAspectSize c) = canvas_width cv \<and>
         snd (lastAspectSize c) = canvas_height cv
      then (vc_projectionMatrix (virtualCamera c), c)
      else
        let c1 = c\<lparr> isProjectionDirty := False,
                    lastAspectSize := (canvas_width cv, canvas_height cv) \<rparr>;
            aspectRatio = get_aspectRatio cv c1;
            m = (if \<not> vc_isOrthographic (virtualCamera c1)
                 then persp (degreeToRadian (fieldOfView c1)) aspectRatio
                        (nearClipPlane c1) (farClipPlane c1)
                 else
                   let w = orthographicSize c1 * aspectRatio;
                       h = orthographicSize c1
                   in orth (- w) w (- h) h (nearClipPlane c1) (farClipPlane c1))
        in (m, c1\<lparr> virtualCamera := (virtualCamera c1)\<lparr> vc_projectionMatrix := m \<rparr> \<rparr>))"

text \<open>The four projection-derived dirty bits, and the four cached matrices.\<close>

definition projDirty :: "'m camera \<Rightarrow> bool" where
  "projDirty c \<longleftrightarrow>
     isProjectionDirty c \<and> isInvProjMatDirty c \<and> isFrustumProjectDirty c \<and>
     isInvViewProjDirty c"

definition matrices :: "'m camera \<Rightarrow> 'm \<times> 'm \<times> 'm \<times> 'm \<times> 'm" where
  "matrices c =
     (vc_viewMatrix (virtualCamera c), vc_projectionMatrix (virtualCamera c),
      vc_viewProjectionMatrix (virtualCamera c), inverseProjectionMatrix c,
      invViewProjMat c)"

section \<open>Camera: world and viewport coordinates\<close>

text \<open>
  Modelled from the spec: the \<open>Matrix\<close> class of the math package, which is not among
  the sources. A matrix has sixteen elements in column-major order, so \<open>e12\<close>, \<open>e13\<close>
  and \<open>e14\<close> hold the translation. Numbers are exact reals.
\<close>

record matrix =
  e0 :: real
  e1 :: real
  e2 :: real
  e3 :: real
  e4 :: real
  e5 :: real
  e6 :: real
  e7 :: real
  e8 :: real
  e9 :: real
  e10 :: real
  e11 :: real
  e12 :: real
  e13 :: real
  e14 :: real
  e15 :: real

definition mat_identity :: matrix where
  "mat_identity = \<lparr> e0 = 1, e1 = 0, e2 = 0, e3 = 0, e4 = 0, e5 = 1, e6 = 0, e7 = 0,
                     e8 = 0, e9 = 0, e10 = 1, e11 = 0, e12 = 0, e13 = 0, e14 = 0, e15 = 1 \<rparr>"

text \<open>
  Modelled from the spec: \<open>Matrix.multiply(left, right, out)\<close>, the product
  \<open>left * right\<close>.
\<close>

definition mat_multiply :: "matrix \<Rightarrow> matrix \<Rightarrow> matrix" where
  "mat_multiply l r =
     \<lparr> e0 = e0 l * e0 r + e4 l * e1 r + e8 l * e2 r + e12 l * e3 r,
       e1 = e1 l * e0 r + e5 l * e1 r + e9 l * e2 r + e13 l * e3 r,
       e2 = e2 l * e0 r + e6 l * e1 r + e10 l * e2 r + e14 l * e3 r,
       e3 = e3 l * e0 r + e7 l * e1 r + e11 l * e2 r + e15 l * e3 r,
       e4 = e0 l * e4 r + e4 l * e5 r + e8 l * e6 r + e12 l * e7 r,
       e5 = e1 l * e4 r + e5 l * e5 r + e9 l * e6 r + e13 l * e7 r,
       e6 = e2 l * e4 r + e6 l * e5 r + e10 l * e6 r + e14 l * e7 r,
       e7 = e3 l * e4 r + e7 l * e5 r + e11 l * e6 r + e15 l * e7 r,
       e8 = e0 l * e8 r + e4 l * e9 r + e8 l * e10 r + e12 l * e11 r,
       e9 = e1 l * e8 r + e5 l * e9 r + e9 l * e10 r + e13 l * e11 r,
       e10 = e2 l * e8 r + e6 l * e9 r + e10 l * e10 r + e14 l * e11 r,
       e11 = e3 l * e8 r + e7 l * e9 r + e11 l * e10 r + e15 l * e11 r,
       e12 = e0 l * e12 r + e4 l * e13 r + e8 l * e14 r + e12 l * e15 r,
       e13 = e1 l * e12 r + e5 l * e13 r + e9 l * e14 r + e13 l * e15 r,
       e14 = e2 l * e12 r + e6 l * e13 r + e10 l * e14 r + e14 l * e15 r,
       e15 = e3 l * e12 r + e7 l * e13 r + e11 l * e14 r + e15 l * e15 r \<rparr>"

text \<open>
  Modelled from the spec: \<open>Matrix.invert(a, out)\<close> by cofactors. When the determinant
  is zero no inverse is written and \<open>out\<close> keeps its value: that case is \<open>None\<close>.
  \<open>mat_det\<close> is the determinant the inversion divides by.
\<close>

definition mat_det :: "matrix \<Rightarrow> real" where
  "mat_det a =
     (let b00 = e0 a * e5 a - e1 a * e4 a;
          b01 = e0 a * e6 a - e2 a * e4 a;
          b02 = e0 a * e7 a - e3 a * e4 a;
          b03 = e1 a * e6 a - e2 a * e5 a;
          b04 = e1 a * e7 a - e3 a * e5 a;
          b05 = e2 a * e7 a - e3 a * e6 a;
          b06 = e8 a * e13 a - e9 a * e12 a;
          b07 = e8 a * e14 a - e10 a * e12 a;
          b08 = e8 a * e15 a - e11 a * e12 a;
          b09 = e9 a * e14 a - e10 a * e13 a;
          b10 = e9 a * e15 a - e11 a * e13 a;
          b11 = e10 a * e15 a - e11 a * e14 a
      in b00 * b11 - b01 * b10 + b02 * b09 + b03 * b08 - b04 * b07 + b05 * b06)"

definition mat_invert :: "matrix \<Rightarrow> matrix option" where
  "mat_invert a =
     (let b00 = e0 a * e5 a - e1 a * e4 a;
          b01 = e0 a * e6 a - e2 a * e4 a;
          b02 = e0 a * e7 a - e3 a * e4 a;
          b03 = e1 a * e6 a - e2 a * e5 a;
          b04 = e1 a * e7 a - e3 a * e5 a;
          b05 = e2 a * e7 a - e3 a * e6 a;
          b06 = e8 a * e13 a - e9 a * e12 a;
          b07 = e8 a * e14 a - e10 a * e12 a;
          b08 = e8 a * e15 a - e11 a * e12 a;
          b09 = e9 a * e14 a - e10 a * e13 a;
          b10 = e9 a * e15 a - e11 a * e13 a;
          b11 = e10 a * e15 a - e11 a * e14 a;
          det = b00 * b11 - b01 * b10 + b02 * b09 + b03 * b08 - b04 * b07 + b05 * b06
      in if det = 0 then None
         else
           let det = 1 / det
           in Some
             \<lparr> e0 = (e5 a * b11 - e6 a * b10 + e7 a * b09) * det,
               e1 = (e2 a * b10 - e1 a * b11 - e3 a * b09) * det,
               e2 = (e13 a * b05 - e14 a * b04 + e15 a * b03) * det,
               e3 = (e10 a * b04 - e9 a * b05 - e11 a * b03) * det,
               e4 = (e6 a * b08 - e4 a * b11 - e7 a * b07) * det,
               e5 = (e0 a * b11 - e2 a * b08 + e3 a * b07) * det,
               e6 = (e14 a * b02 - e12 a * b05 - e15 a * b01) * det,
               e7 = (e8 a * b05 - e10 a * b02 + e11 a * b01) * det,
               e8 = (e4 a * b10 - e5 a * b08 + e7 a * b06) * det,
               e9 = (e1 a * b08 - e0 a * b10 - e3 a * b06) * det,
               e10 = (e12 a * b04 - e13 a * b02 + e15 a * b00) * det,
               e11 = (e9 a * b02 - e8 a * b04 - e11 a * b00) * det,
               e12 = (e5 a * b07 - e4 a * b09 - e6 a * b06) * det,
               e13 = (e0 a * b09 - e1 a * b07 + e2 a * b06) * det,
               e14 = (e13 a * b01 - e12 a * b03 - e14 a * b00) * det,
               e15 = (e8 a * b03 - e9 a * b01 + e10 a * b00) * det \<rparr>)"

text \<open>
  Modelled from the spec: \<open>Vector3.transformToVec4\<close> and
  \<open>Vector3.transformCoordinate\<close> of the math package. Both extend the point by
  \<open>w = 1\<close> and multiply it by the matrix; \<open>transformCoordinate\<close> then divides by the
  resulting \<open>w\<close>. \<open>mat_apply\<close> is the product of a matrix and a four-component vector
  they share, \<open>vscale\<close> the multiple of such a vector.
\<close>

type_synonym vector3 = "real \<times> real \<times> real"

definition mat_apply :: "matrix \<Rightarrow> vector4 \<Rightarrow> vector4" where
  "mat_apply m v =
     (case v of (x, y, z, w) \<Rightarrow>
        (x * e0 m + y * e4 m + z * e8 m + w * e12 m,
         x * e1 m + y * e5 m + z * e9 m + w * e13 m,
         x * e2 m + y * e6 m + z * e10 m + w * e14 m,
         x * e3 m + y * e7 m + z * e11 m + w * e15 m))"

definition vscale :: "real \<Rightarrow> vector4 \<Rightarrow> vector4" where
  "vscale k v = (case v of (x, y, z, w) \<Rightarrow> (k * x, k * y, k * z, k * w))"

definition transformToVec4 :: "vector3 \<Rightarrow> matrix \<Rightarrow> vector4" where
  "transformToVec4 v m = (case v of (x, y, z) \<Rightarrow> mat_apply m (x, y, z, 1))"

definition transformCoordinate :: "vector3 \<Rightarrow> matrix \<Rightarrow> vector3" where
  "transformCoordinate v m =
     (case transformToVec4 v m of (x, y, z, w) \<Rightarrow> (x * (1 / w), y * (1 / w), z * (1 / w)))"

text \<open>
  Modelled from the spec: \<open>Matrix.perspective(fovy, aspect, near, far, out)\<close> and
  \<open>Matrix.ortho(left, right, bottom, top, near, far, out)\<close>, the two projection
  formulas the camera derives its projection matrix with.
\<close>

definition mat_perspective :: "real \<Rightarrow> real \<Rightarrow> real \<Rightarrow> real \<Rightarrow> matrix" where
  "mat_perspective fovy aspect near far =
     (let f = 1 / tan (fovy / 2);
          nf = 1 / (near - far)
      in \<lparr> e0 = f / aspect, e1 = 0, e2 = 0, e3 = 0,
           e4 = 0, e5 = f, e6 = 0, e7 = 0,
           e8 = 0, e9 = 0, e10 = (far + near) * nf, e11 = - 1,
           e12 = 0, e13 = 0, e14 = 2 * far * near * nf, e15 = 0 \<rparr>)"

definition mat_ortho :: "real \<Rightarrow> real \<Rightarrow> real \<Rightarrow> real \<Rightarrow> real \<Rightarrow> real \<Rightarrow> matrix" where
  "mat_ortho left right bottom upper near far =
     (let lr = 1 / (left - right);
          bt = 1 / (bottom - upper);
          nf = 1 / (near - far)
      in \<lparr> e0 = - 2 * lr, e1 = 0, e2 = 0, e3 = 0,
           e4 = 0, e5 = - 2 * bt, e6 = 0, e7 = 0,
           e8 = 0, e9 = 0, e10 = 2 * nf, e11 = 0,
           e12 = (left + right) * lr, e13 = (upper + bottom) * bt, e14 = (far + near) * nf,
           e15 = 1 \<rparr>)"

text \<open>
  Modelled from the spec: \<open>Matrix.rotationTranslation(quaternion, translation, out)\<close>,
  the matrix of a rotation followed by a translation, without scale.
\<close>

definition rotationTranslation :: "vector4 \<Rightarrow> vector3 \<Rightarrow> matrix" where
  "rotationTranslation q t =
     (case q of (x, y, z, w) \<Rightarrow>
      case t of (tx, ty, tz) \<Rightarrow>
        let x2 = x + x; y2 = y + y; z2 = z + z;
            xx = x * x2; xy = x * y2; xz = x * z2;
            yy = y * y2; yz = y * z2; zz = z * z2;
            wx = w * x2; wy = w * y2; wz = w * z2
        in \<lparr> e0 = 1 - (yy + zz), e1 = xy + wz, e2 = xz - wy, e3 = 0,
             e4 = xy - wz, e5 = 1 - (xx + zz), e6 = yz + wx, e7 = 0,
             e8 = xz + wy, e9 = yz - wx, e10 = 1 - (xx + yy), e11 = 0,
             e12 = tx, e13 = ty, e14 = tz, e15 = 1 \<rparr>)"

text \<open>
  Modelled from the spec: what the camera reads of the \<open>Transform\<close> of its entity,
  which is not among the sources: the world matrix (rotation, translation and scale), the
  world rotation and the world position.
\<close>

record transform =
  worldMatrix :: matrix
  worldRotationQuaternion :: vector4
  worldPosition :: vector3

text \<open>
  The getter of \<open>viewMatrix\<close>: when the transform has changed, the view matrix is the
  inverse of the rotation and translation of the transform, its scale being ignored, and
  the flag is cleared.
\<close>

definition get_viewMatrix :: "transform \<Rightarrow> matrix camera \<Rightarrow> matrix \<times> matrix camera" where
  "get_viewMatrix tf c =
     (if isViewMatrixDirty c
      then
        let rt = rotationTranslation (worldRotationQuaternion tf) (worldPosition tf);
            viewMatrix = (case mat_invert rt of Some m \<Rightarrow> m | None \<Rightarrow> rt)
        in (viewMatrix,
            c\<lparr> isViewMatrixDirty := False,
               virtualCamera := (virtualCamera c)\<lparr> vc_viewMatrix := viewMatrix \<rparr> \<rparr>)
      else (vc_viewMatrix (virtualCamera c), c))"

text \<open>
  The getter of \<open>projectionMatrix\<close> with the two projection formulas of the math
  package, and the projection matrix it derives when it derives one.
\<close>

definition projectionMatrix :: "canvas \<Rightarrow> matrix camera \<Rightarrow> matrix \<times> matrix camera" where
  "projectionMatrix cv c = get_projectionMatrix mat_perspective mat_ortho cv c"

definition derivedProjection :: "canvas \<Rightarrow> matrix camera \<Rightarrow> matrix" where
  "derivedProjection cv c =
     (if \<not> vc_isOrthographic (virtualCamera c)
      then mat_perspective (degreeToRadian (fieldOfView c)) (get_aspectRatio cv c)
             (nearClipPlane c) (farClipPlane c)
      else mat_ortho (- (orthographicSize c * get_aspectRatio cv c))
             (orthographicSize c * get_aspectRatio cv c)
             (- orthographicSize c) (orthographicSize c) (nearClipPlane c) (farClipPlane c))"

text \<open>
  \<open>_getInverseProjectionMatrix\<close> and \<open>_getInvViewProjMat\<close>: both recompute their
  cached matrix only when their own flag is raised, and clear the flag before they read
  what they depend on.
\<close>

definition getInverseProjectionMatrix ::
  "canvas \<Rightarrow> matrix camera \<Rightarrow> matrix \<times> matrix camera" where
  "getInverseProjectionMatrix cv c =
     (if isInvProjMatDirty c
      then
        (case projectionMatrix cv (c\<lparr> isInvProjMatDirty := False \<rparr>) of
           (pm, c1) \<Rightarrow>
             let inv = (case mat_invert pm of Some m \<Rightarrow> m | None \<Rightarrow> inverseProjectionMatrix c1)
             in (inv, c1\<lparr> inverseProjectionMatrix := inv \<rparr>))
      else (inverseProjectionMatrix c, c))"

definition getInvViewProjMat ::
  "transform \<Rightarrow> canvas \<Rightarrow> matrix camera \<Rightarrow> matrix \<times> matrix camera" where
  "getInvViewProjMat tf cv c =
     (if isInvViewProjDirty c
      then
        (case getInverseProjectionMatrix cv (c\<lparr> isInvViewProjDirty := False \<rparr>) of
           (ip, c1) \<Rightarrow>
             let m = mat_multiply (worldMatrix tf) ip
             in (m, c1\<lparr> invViewProjMat := m \<rparr>))
      else (invViewProjMat c, c))"

text \<open>
  \<open>_innerViewportToWorldPoint\<close>, \<open>worldToViewportPoint\<close> and
  \<open>viewportToWorldPoint\<close>. Each returns its result and the camera as the reads leave
  it. \<open>roundTrip\<close> is \<open>viewportToWorldPoint\<close> applied to the result of
  \<open>worldToViewportPoint\<close>, on the camera the first call leaves.
\<close>

definition innerViewportToWorldPoint :: "real \<Rightarrow> real \<Rightarrow> real \<Rightarrow> matrix \<Rightarrow> vector3" where
  "innerViewportToWorldPoint x y z invViewProjMatrix =
     (let clipPoint = (x * 2 - 1, 1 - y * 2, z * 2 - 1)
      in transformCoordinate clipPoint invViewProjMatrix)"

definition worldToViewportPoint ::
  "transform \<Rightarrow> canvas \<Rightarrow> vector3 \<Rightarrow> matrix camera \<Rightarrow> vector3 \<times> matrix camera" where
  "worldToViewportPoint tf cv point c =
     (case get_viewMatrix tf c of
        (vm, c1) \<Rightarrow>
          let cameraPoint = transformCoordinate point vm
          in (case projectionMatrix cv c1 of
                (pm, c2) \<Rightarrow>
                  (case transformToVec4 cameraPoint pm of
                     (vx, vy, vz, w) \<Rightarrow>
                       (((vx / w + 1) * 0.5, (1 - vy / w) * 0.5, - snd (snd cameraPoint)), c2))))"

definition viewportToWorldPoint ::
  "transform \<Rightarrow> canvas \<Rightarrow> vector3 \<Rightarrow> matrix camera \<Rightarrow> vector3 \<times> matrix camera" where
  "viewportToWorldPoint tf cv point c =
     (case point of
        (px, py, pz) \<Rightarrow>
          let nf = 1 / (nearClipPlane c - farClipPlane c);
              z = (if get_isOrthographic c
                   then - pz * 2 * nf + (farClipPlane c + nearClipPlane c) * nf
                   else (- pz * (nearClipPlane c + farClipPlane c) * nf +
                         2 * nearClipPlane c * farClipPlane c * nf) / pz)
          in (case getInvViewProjMat tf cv c of
                (m, c1) \<Rightarrow> (innerViewportToWorldPoint px py ((z + 1) / 2) m, c1)))"

definition roundTrip ::
  "transform \<Rightarrow> canvas \<Rightarrow> vector3 \<Rightarrow> matrix camera \<Rightarrow> vector3 \<times> matrix camera" where
  "roundTrip tf cv point c =
     (case worldToViewportPoint tf cv point c of
        (v, c1) \<Rightarrow> viewportToWorldPoint tf cv v c1)"

text \<open>
  The caches of a camera are fresh when each cached matrix is either marked dirty or
  holds what its recomputation would store: the view matrix the inverse of the rotation
  and translation of the transform, the projection matrix the one derived from the
  parameters and the canvas (it is also recomputed when the canvas size differs from the
  one last seen), the inverse projection matrix its inverse, and the inverse
  view-projection matrix the product of the world matrix and that inverse.
\<close>

definition cachesFresh :: "transform \<Rightarrow> canvas \<Rightarrow> matrix camera \<Rightarrow> bool" where
  "cachesFresh tf cv c \<longleftrightarrow>
     (isViewMatrixDirty c \<or>
      mat_invert (rotationTranslation (worldRotationQuaternion tf) (worldPosition tf)) =
        Some (vc_viewMatrix (virtualCamera c))) \<and>
     (isProjectionDirty c \<or> lastAspectSize c \<noteq> (canvas_width cv, canvas_height cv) \<or>
      vc_projectionMatrix (virtualCamera c) = derivedProjection cv c) \<and>
     (isInvProjMatDirty c \<or>
      mat_invert (derivedProjection cv c) = Some (inverseProjectionMatrix c)) \<and>
     (isInvViewProjDirty c \<or>
      (case mat_invert (derivedProjection cv c) of
         Some ip \<Rightarrow> invViewProjMat c = mat_multiply (worldMatrix tf) ip
       | None \<Rightarrow> False))"

subsection \<open>Sample transforms and cameras\<close>

text \<open>
  A transform at rest, a transform turned by half a turn about the y axis and moved to
  \<open>(1, 2, 3)\<close>, a canvas of 800 by 600 pixels, and a camera that was read once on that
  canvas and then given the projection matrix \<open>manual_matrix\<close> by hand.
\<close>

definition rest_transform :: transform where
  "rest_transform = \<lparr> worldMatrix = mat_identity, worldRotationQuaternion = (0, 0, 0, 1),
                       worldPosition = (0, 0, 0) \<rparr>"

definition turned_transform :: transform where
  "turned_transform = \<lparr> worldMatrix = rotationTranslation (0, 1, 0, 0) (1, 2, 3),
                         worldRotationQuaternion = (0, 1, 0, 0), worldPosition = (1, 2, 3) \<rparr>"

definition wide_canvas :: canvas where
  "wide_canvas = \<lparr> canvas_width = 800, canvas_height = 600 \<rparr>"

definition manual_matrix :: matrix where
  "manual_matrix =
     \<lparr> e0 = 1, e1 = 0, e2 = 0, e3 = 0, e4 = 0, e5 = 1, e6 = 0, e7 = 0,
       e8 = 0, e9 = 0, e10 = - 3, e11 = - 1, e12 = 0, e13 = 0, e14 = - 4, e15 = 0 \<rparr>"

definition manual_camera :: "matrix camera" where
  "manual_camera =
     set_projectionMatrix manual_matrix
       (snd (projectionMatrix wide_canvas
          (set_aspectRatio 1 (set_fieldOfView 90 (newCamera mat_identity)))))"

section \<open>TextRenderer: setters and the render guard\<close>

text \<open>
  \<open>packages/core/src/2d/text/TextRenderer.ts\<close>. The enums are declared outside the
  sources; the members the class names are the constructors below, and \<open>FontStyle\<close>,
  a set of style bits, is the number it is at run time. The dirty flags are combined with
  JavaScript's bitwise operators, which work on 32-bit integers.
\<close>

datatype textHorizontalAlignment = Left | Center | Right

datatype textVerticalAlignment = Top | VCenter | Bottom

datatype overflowMode = Overflow | Truncate

datatype spriteMaskInteraction = MaskNone | VisibleInsideMask | VisibleOutsideMask

datatype compareFunction = Always | LessEqual | Greater

definition SubFont_bit :: "32 word" where "SubFont_bit = 0x1"
definition LocalPositionBounds_bit :: "32 word" where "LocalPositionBounds_bit = 0x2"
definition WorldPosition_bit :: "32 word" where "WorldPosition_bit = 0x4"
definition WorldBounds_bit :: "32 word" where "WorldBounds_bit = 0x8"
definition MaskInteraction_bit :: "32 word" where "MaskInteraction_bit = 0x10"

definition Position_bits :: "32 word" where
  "Position_bits = LocalPositionBounds_bit OR WorldPosition_bit OR WorldBounds_bit"

definition Font_bits :: "32 word" where
  "Font_bits = SubFont_bit OR Position_bits"

record stencilState =
  enabled :: bool
  writeMask :: "32 word"
  referenceValue :: int
  compareFunctionFront :: compareFunction
  compareFunctionBack :: compareFunction

text \<open>
  The renderer. \<open>'font\<close> is a reference to a \<open>Font\<close>, \<open>'sub\<close> one to a
  \<open>SubFont\<close>, \<open>'crd\<close> a \<open>CharRenderData\<close> and \<open>'b\<close> a bounding box;
  \<open>tr_stencil\<close> is the stencil state of the renderer's instance material.
\<close>

record ('font, 'sub, 'crd, 'b) textRenderer =
  tr_subFont :: "'sub option"
  tr_charRenderDatas :: "'crd list"
  tr_dirtyFlag :: "32 word"
  tr_color :: "real \<times> real \<times> real \<times> real"
  tr_text :: string
  tr_width :: real
  tr_height :: real
  tr_localBounds :: 'b
  tr_font :: "'font option"
  tr_fontSize :: real
  tr_fontStyle :: int
  tr_lineSpacing :: real
  tr_horizontalAlignment :: textHorizontalAlignment
  tr_verticalAlignment :: textVerticalAlignment
  tr_enableWrapping :: bool
  tr_overflowMode :: overflowMode
  tr_maskInteraction :: spriteMaskInteraction
  tr_maskLayer :: int
  tr_stencil :: stencilState

definition isContainDirtyFlag ::
  "32 word \<Rightarrow> ('font, 'sub, 'crd, 'b) textRenderer \<Rightarrow> bool" where
  "isContainDirtyFlag ty r \<longleftrightarrow> (tr_dirtyFlag r AND ty) \<noteq> 0"

definition setDirtyFlagTrue ::
  "32 word \<Rightarrow> ('font, 'sub, 'crd, 'b) textRenderer \<Rightarrow> ('font, 'sub, 'crd, 'b) textRenderer" where
  "setDirtyFlagTrue ty r = r\<lparr> tr_dirtyFlag := tr_dirtyFlag r OR ty \<rparr>"

definition setDirtyFlagFalse ::
  "32 word \<Rightarrow> ('font, 'sub, 'crd, 'b) textRenderer \<Rightarrow> ('font, 'sub, 'crd, 'b) textRenderer" where
  "setDirtyFlagFalse ty r = r\<lparr> tr_dirtyFlag := tr_dirtyFlag r AND NOT ty \<rparr>"

text \<open>
  The setters. The argument of the \<open>text\<close> setter is \<open>None\<close> for \<open>null\<close> and
  \<open>undefined\<close>; \<open>value || ""\<close> turns these, and the empty string, into \<open>""\<close>.
\<close>

definition set_text ::
  "string option \<Rightarrow> ('font, 'sub, 'crd, 'b) textRenderer \<Rightarrow> ('font, 'sub, 'crd, 'b) textRenderer" where
  "set_text v r =
     (let v' = (case v of None \<Rightarrow> [] | Some s \<Rightarrow> s)
      in if tr_text r \<noteq> v'
         then setDirtyFlagTrue Position_bits (r\<lparr> tr_text := v' \<rparr>)
         else r)"

definition set_width ::
  "real \<Rightarrow> ('font, 'sub, 'crd, 'b) textRenderer \<Rightarrow> ('font, 'sub, 'crd, 'b) textRenderer" where
  "set_width v r =
     (if tr_width r \<noteq> v then setDirtyFlagTrue Position_bits (r\<lparr> tr_width := v \<rparr>) else r)"

definition set_height ::
  "real \<Rightarrow> ('font, 'sub, 'crd, 'b) textRenderer \<Rightarrow> ('font, 'sub, 'crd, 'b) textRenderer" where
  "set_height v r =
     (if tr_height r \<noteq> v then setDirtyFlagTrue Position_bits (r\<lparr> tr_height := v \<rparr>) else r)"

definition set_fontSize ::
  "real \<Rightarrow> ('font, 'sub, 'crd, 'b) textRenderer \<Rightarrow> ('font, 'sub, 'crd, 'b) textRenderer" where
  "set_fontSize v r =
     (if tr_fontSize r \<noteq> v then setDirtyFlagTrue Font_bits (r\<lparr> tr_fontSize := v \<rparr>) else r)"

definition set_fontStyle ::
  "int \<Rightarrow> ('font, 'sub, 'crd, 'b) textRenderer \<Rightarrow> ('font, 'sub, 'crd, 'b) textRenderer" where
  "set_fontStyle v r =
     (if tr_fontStyle r \<noteq> v then setDirtyFlagTrue Font_bits (r\<lparr> tr_fontStyle := v \<rparr>) else r)"

definition set_lineSpacing ::
  "real \<Rightarrow> ('font, 'sub, 'crd, 'b) textRenderer \<Rightarrow> ('font, 'sub, 'crd, 'b) textRenderer" where
  "set_lineSpacing v r =
     (if tr_lineSpacing r \<noteq> v
      then setDirtyFlagTrue Position_bits (r\<lparr> tr_lineSpacing := v \<rparr>) else r)"

definition set_horizontalAlignment ::
  "textHorizontalAlignment \<Rightarrow> ('font, 'sub, 'crd, 'b) textRenderer \<Rightarrow>
   ('font, 'sub, 'crd, 'b) textRenderer" where
  "set_horizontalAlignment v r =
     (if tr_horizontalAlignment r \<noteq> v
      then setDirtyFlagTrue Position_bits (r\<lparr> tr_horizontalAlignment := v \<rparr>) else r)"

definition set_verticalAlignment ::
  "textVerticalAlignment \<Rightarrow> ('font, 'sub, 'crd, 'b) textRenderer \<Rightarrow>
   ('font, 'sub, 'crd, 'b) textRenderer" where
  "set_verticalAlignment v r =
     (if tr_verticalAlignment r \<noteq> v
      then setDirtyFlagTrue Position_bits (r\<lparr> tr_verticalAlignment := v \<rparr>) else r)"

definition set_enableWrapping ::
  "bool \<Rightarrow> ('font, 'sub, 'crd, 'b) textRenderer \<Rightarrow> ('font, 'sub, 'crd, 'b) textRenderer" where
  "set_enableWrapping v r =
     (if tr_enableWrapping r \<noteq> v
      then setDirtyFlagTrue Position_bits (r\<lparr> tr_enableWrapping := v \<rparr>) else r)"

definition set_overflowMode ::
  "overflowMode \<Rightarrow> ('font, 'sub, 'crd, 'b) textRenderer \<Rightarrow> ('font, 'sub, 'crd, 'b) textRenderer" where
  "set_overflowMode v r =
     (if tr_overflowMode r \<noteq> v
      then setDirtyFlagTrue Position_bits (r\<lparr> tr_overflowMode := v \<rparr>) else r)"

definition set_maskInteraction ::
  "spriteMaskInteraction \<Rightarrow> ('font, 'sub, 'crd, 'b) textRenderer \<Rightarrow>
   ('font, 'sub, 'crd, 'b) textRenderer" where
  "set_maskInteraction v r =
     (if tr_maskInteraction r \<noteq> v
      then setDirtyFlagTrue MaskInteraction_bit (r\<lparr> tr_maskInteraction := v \<rparr>) else r)"

definition set_maskLayer ::
  "int \<Rightarrow> ('font, 'sub, 'crd, 'b) textRenderer \<Rightarrow> ('font, 'sub, 'crd, 'b) textRenderer" where
  "set_maskLayer v r = r\<lparr> tr_maskLayer := v \<rparr>"

definition updateStencilState ::
  "('font, 'sub, 'crd, 'b) textRenderer \<Rightarrow> ('font, 'sub, 'crd, 'b) textRenderer" where
  "updateStencilState r =
     (if tr_maskInteraction r = MaskNone
      then r\<lparr> tr_stencil := \<lparr> enabled = False, writeMask = 0xff, referenceValue = 0,
                               compareFunctionFront = Always, compareFunctionBack = Always \<rparr> \<rparr>
      else
        let compare = (if tr_maskInteraction r = VisibleInsideMask then LessEqual else Greater)
        in r\<lparr> tr_stencil := \<lparr> enabled = True, writeMask = 0x00, referenceValue = 1,
                                compareFunctionFront = compare,
                                compareFunctionBack = compare \<rparr> \<rparr>)"

text \<open>
  What \<open>_render\<close> calls outside this class: \<open>Font._getSubFont\<close> for
  \<open>_resetSubFont\<close>; the layout of \<open>_updateLocalData\<close>, which measures the text with
  \<open>TextUtils\<close> and rewrites the char render data and the local bounds; and
  \<open>_updatePosition\<close>, which moves the char render data by the entity's world matrix.
\<close>

record ('font, 'sub, 'crd, 'b) collaborators =
  getSubFont :: "'font option \<Rightarrow> real \<Rightarrow> int \<Rightarrow> 'sub option"
  updateLocalData ::
    "('font, 'sub, 'crd, 'b) textRenderer \<Rightarrow> ('font, 'sub, 'crd, 'b) textRenderer"
  updatePosition ::
    "('font, 'sub, 'crd, 'b) textRenderer \<Rightarrow> ('font, 'sub, 'crd, 'b) textRenderer"

definition resetSubFont ::
  "('font, 'sub, 'crd, 'b) collaborators \<Rightarrow> ('font, 'sub, 'crd, 'b) textRenderer \<Rightarrow>
   ('font, 'sub, 'crd, 'b) textRenderer" where
  "resetSubFont ext r =
     r\<lparr> tr_subFont := getSubFont ext (tr_font r) (tr_fontSize r) (tr_fontStyle r) \<rparr>"

text \<open>
  A text element groups one sprite element per char render data; the render pipeline's
  queue is the list of the text elements pushed so far.
\<close>

datatype 'crd textElement = TextElement (charElements: "'crd list")

definition render ::
  "('font, 'sub, 'crd, 'b) collaborators \<Rightarrow>
   ('font, 'sub, 'crd, 'b) textRenderer \<times> 'crd textElement list \<Rightarrow>
   ('font, 'sub, 'crd, 'b) textRenderer \<times> 'crd textElement list" where
  "render ext rq =
     (case rq of (r, queue) \<Rightarrow>
        if tr_text r = [] \<or>
           (tr_enableWrapping r \<and> tr_width r \<le> 0) \<or>
           (tr_overflowMode r = Truncate \<and> tr_height r \<le> 0)
        then (r, queue)
        else
          let r1 = (if isContainDirtyFlag MaskInteraction_bit r
                    then setDirtyFlagFalse MaskInteraction_bit (updateStencilState r) else r);
              r2 = (if isContainDirtyFlag SubFont_bit r1
                    then setDirtyFlagFalse SubFont_bit (resetSubFont ext r1) else r1);
              r3 = (if isContainDirtyFlag LocalPositionBounds_bit r2
                    then setDirtyFlagFalse LocalPositionBounds_bit (updateLocalData ext r2)
                    else r2);
              r4 = (if isContainDirtyFlag WorldPosition_bit r3
                    then setDirtyFlagFalse WorldPosition_bit (updatePosition ext r3) else r3)
          in (r4, queue @ [TextElement (tr_charRenderDatas r4)]))"

text \<open>
  The field initialisers and the constructor, which takes the engine's default font. The
  bounding box and the material come from outside the class: \<open>box\<close> is an empty
  \<open>BoundingBox\<close> and \<open>st\<close> the stencil state of the default sprite material.
\<close>

definition newTextRenderer ::
  "'font \<Rightarrow> 'b \<Rightarrow> stencilState \<Rightarrow> ('font, 'sub, 'crd, 'b) textRenderer" where
  "newTextRenderer defaultFont box st =
     \<lparr> tr_subFont = None,
       tr_charRenderDatas = [],
       tr_dirtyFlag = Font_bits,
       tr_color = (1, 1, 1, 1),
       tr_text = [],
       tr_width = 0,
       tr_height = 0,
       tr_localBounds = box,
       tr_font = Some defaultFont,
       tr_fontSize = 24,
       tr_fontStyle = 0,
       tr_lineSpacing = 0,
       tr_horizontalAlignment = Center,
       tr_verticalAlignment = VCenter,
       tr_enableWrapping = False,
       tr_overflowMode = Overflow,
       tr_maskInteraction = MaskNone,
       tr_maskLayer = 1,
       tr_stencil = st \<rparr>"

text \<open>
  A concrete renderer for running \<open>render\<close>: the text \<open>AB\<close>, a layout that makes one
  char render data per character, and the stencil state of a material without masking.
\<close>

definition plain_stencil :: stencilState where
  "plain_stencil = \<lparr> enabled = False, writeMask = 0xff, referenceValue = 0,
                      compareFunctionFront = Always, compareFunctionBack = Always \<rparr>"

definition per_char_layout :: "(unit, unit, char, unit) collaborators" where
  "per_char_layout =
     \<lparr> getSubFont = (\<lambda>f z y. Some ()),
       updateLocalData = (\<lambda>r. r\<lparr> tr_charRenderDatas := tr_text r \<rparr>),
       updatePosition = (\<lambda>r. r) \<rparr>"

definition renderer_AB :: "(unit, unit, char, unit) textRenderer" where
  "renderer_AB = (newTextRenderer () () plain_stencil)\<lparr> tr_text := ''AB'' \<rparr>"

section \<open>SubFont: the pages of a glyph atlas\<close>

text \<open>
  \<open>src/unnamed/part_001\<close>. A \<open>CharInfo\<close> carries the glyph bitmap \<open>data\<close> until it
  is uploaded, the index of its page, and its size. A texture is identified by its
  \<open>instanceId\<close>, the key \<open>TextRenderer\<close> sorts char render data by; every new
  texture takes the next value of a counter, kept here in the state.
\<close>

record 'd charInfo =
  ci_index :: int
  ci_data :: "'d option"
  ci_w :: real
  ci_h :: real

record texture2D =
  tex_width :: nat
  tex_height :: nat
  tex_instanceId :: nat

text \<open>
  Modelled from the spec: the \<open>FontAtlas\<close> class, which is not among the sources. The
  spec gives its interface: \<open>uploadCharTexture(charInfo)\<close> answers whether the glyph
  could be packed into the page, \<open>addCharInfo(char, charInfo)\<close> records a glyph under
  its character, \<open>getCharInfo(char)\<close> returns the recorded glyph or null, and the page
  owns a texture. How a page packs is left open: the packing state is a value of type
  \<open>'p\<close>, \<open>pk_empty\<close> that of an empty page, and \<open>pk_upload\<close> the packing attempt.
  \<open>fa_glyphs\<close> lists the glyphs whose bitmaps the page's texture holds.
\<close>

record ('d, 'p) packer =
  pk_empty :: 'p
  pk_upload :: "'d charInfo \<Rightarrow> 'p \<Rightarrow> bool \<times> 'p"

record ('d, 'p) fontAtlas =
  fa_texture :: texture2D
  fa_charInfoMap :: "(string \<times> 'd charInfo) list"
  fa_packing :: 'p
  fa_glyphs :: "'d charInfo list"

definition fa_uploadCharTexture ::
  "('d, 'p) packer \<Rightarrow> 'd charInfo \<Rightarrow> ('d, 'p) fontAtlas \<Rightarrow> bool \<times> ('d, 'p) fontAtlas" where
  "fa_uploadCharTexture pk ci a =
     (case pk_upload pk ci (fa_packing a) of
        (ok, p') \<Rightarrow>
          (ok, a\<lparr> fa_packing := p',
                  fa_glyphs := (if ok then fa_glyphs a @ [ci] else fa_glyphs a) \<rparr>))"

definition fa_addCharInfo ::
  "string \<Rightarrow> 'd charInfo \<Rightarrow> ('d, 'p) fontAtlas \<Rightarrow> ('d, 'p) fontAtlas" where
  "fa_addCharInfo c ci a = a\<lparr> fa_charInfoMap := (c, ci) # fa_charInfoMap a \<rparr>"

definition fa_getCharInfo :: "string \<Rightarrow> ('d, 'p) fontAtlas \<Rightarrow> 'd charInfo option" where
  "fa_getCharInfo c a = map_of (fa_charInfoMap a) c"

text \<open>The class itself. \<open>sf_instanceIds\<close> is the counter of instance ids.\<close>

record ('d, 'p) subFont =
  sf_fontAtlases :: "('d, 'p) fontAtlas list"
  sf_lastIndex :: int
  sf_instanceIds :: nat

definition newSubFont :: "nat \<Rightarrow> ('d, 'p) subFont" where
  "newSubFont ids = \<lparr> sf_fontAtlases = [], sf_lastIndex = - 1, sf_instanceIds = ids \<rparr>"

definition destroy :: "('d, 'p) subFont \<Rightarrow> ('d, 'p) subFont" where
  "destroy sf = sf\<lparr> sf_fontAtlases := [] \<rparr>"

definition createFontAtlas ::
  "('d, 'p) packer \<Rightarrow> ('d, 'p) subFont \<Rightarrow> ('d, 'p) fontAtlas \<times> ('d, 'p) subFont" where
  "createFontAtlas pk sf =
     (let texture = \<lparr> tex_width = 256, tex_height = 256,
                       tex_instanceId = Suc (sf_instanceIds sf) \<rparr>;
          fontAtlas = \<lparr> fa_texture = texture, fa_charInfoMap = [],
                         fa_packing = pk_empty pk, fa_glyphs = [] \<rparr>
      in (fontAtlas,
          sf\<lparr> sf_fontAtlases := sf_fontAtlases sf @ [fontAtlas],
              sf_instanceIds := Suc (sf_instanceIds sf) \<rparr>))"

text \<open>
  \<open>fontAtlases[lastIndex]\<close> is \<open>undefined\<close> outside the array, and calling a method
  on it throws a \<open>TypeError\<close>: the result \<open>None\<close>. The atlas objects are shared with
  the array, so an upload into a page is written back at the page's index; the page made
  by the retry is the last one of the array. The caller's \<open>charInfo\<close> is returned as the
  call leaves it.
\<close>

definition uploadCharTexture ::
  "('d, 'p) packer \<Rightarrow> 'd charInfo \<Rightarrow> ('d, 'p) subFont \<Rightarrow>
   ('d charInfo \<times> ('d, 'p) subFont) option" where
  "uploadCharTexture pk ci sf =
     (let (lastIndex, sf1) =
            (if sf_lastIndex sf = - 1
             then (sf_lastIndex sf + 1, snd (createFontAtlas pk sf))
             else (sf_lastIndex sf, sf))
      in if lastIndex < 0 \<or> int (length (sf_fontAtlases sf1)) \<le> lastIndex then None
         else
           (case fa_uploadCharTexture pk ci (sf_fontAtlases sf1 ! nat lastIndex) of
              (ok, a1) \<Rightarrow>
                let sf2 = sf1\<lparr> sf_fontAtlases := (sf_fontAtlases sf1)[nat lastIndex := a1] \<rparr>
                in if \<not> ok
                   then
                     (case createFontAtlas pk sf2 of
                        (fontAtlas, sf3) \<Rightarrow>
                          let a2 = snd (fa_uploadCharTexture pk ci fontAtlas);
                              sf4 = sf3\<lparr> sf_fontAtlases :=
                                      (sf_fontAtlases sf3)
                                        [length (sf_fontAtlases sf3) - 1 := a2] \<rparr>
                          in Some (ci\<lparr> ci_data := None \<rparr>,
                                   sf4\<lparr> sf_lastIndex := lastIndex + 1 \<rparr>))
                   else Some (ci\<lparr> ci_data := None \<rparr>, sf2\<lparr> sf_lastIndex := lastIndex \<rparr>)))"

definition addCharInfo ::
  "string \<Rightarrow> 'd charInfo \<Rightarrow> ('d, 'p) subFont \<Rightarrow> ('d charInfo \<times> ('d, 'p) subFont) option" where
  "addCharInfo c ci sf =
     (let lastIndex = sf_lastIndex sf;
          ci1 = ci\<lparr> ci_index := lastIndex \<rparr>
      in if lastIndex < 0 \<or> int (length (sf_fontAtlases sf)) \<le> lastIndex then None
         else Some (ci1,
                sf\<lparr> sf_fontAtlases :=
                      (sf_fontAtlases sf)
                        [nat lastIndex :=
                           fa_addCharInfo c ci1 (sf_fontAtlases sf ! nat lastIndex)] \<rparr>))"

fun scanPages :: "string \<Rightarrow> ('d, 'p) fontAtlas list \<Rightarrow> 'd charInfo option" where
  "scanPages c [] = None"
| "scanPages c (fontAtlas # rest) =
     (case fa_getCharInfo c fontAtlas of
        Some ci \<Rightarrow> Some ci
      | None \<Rightarrow> scanPages c rest)"

definition getCharInfo :: "string \<Rightarrow> ('d, 'p) subFont \<Rightarrow> 'd charInfo option" where
  "getCharInfo c sf = scanPages c (sf_fontAtlases sf)"

definition getTextureByIndex :: "int \<Rightarrow> ('d, 'p) subFont \<Rightarrow> texture2D option" where
  "getTextureByIndex i sf =
     (if 0 \<le> i \<and> i < int (length (sf_fontAtlases sf))
      then Some (fa_texture (sf_fontAtlases sf ! nat i))
      else None)"

definition getLastIndex :: "('d, 'p) subFont \<Rightarrow> int" where
  "getLastIndex sf = sf_lastIndex sf"

text \<open>
  The states a \<open>SubFont\<close> can be in: what the constructor makes, and what the methods
  that write to it make of such a state.
\<close>

inductive reachable :: "('d, 'p) packer \<Rightarrow> ('d, 'p) subFont \<Rightarrow> bool"
  for pk :: "('d, 'p) packer" where
  reach_new: "reachable pk (newSubFont ids)"
| reach_upload:
    "reachable pk sf \<Longrightarrow> uploadCharTexture pk ci sf = Some (ci1, sf1) \<Longrightarrow> reachable pk sf1"
| reach_add:
    "reachable pk sf \<Longrightarrow> addCharInfo c ci sf = Some (ci1, sf1) \<Longrightarrow> reachable pk sf1"
| reach_destroy: "reachable pk sf \<Longrightarrow> reachable pk (destroy sf)"

text \<open>
  Placing a run of glyphs the way the text measurement does: each glyph is uploaded and
  then recorded under its character. \<open>cursorPageRefuses\<close> says whether the upload into
  the cursor page, made first if there is none yet, fails; \<open>packingFailures\<close> counts
  these failures along a run.
\<close>

definition placeGlyph ::
  "('d, 'p) packer \<Rightarrow> string \<times> 'd charInfo \<Rightarrow> ('d, 'p) subFont \<Rightarrow> ('d, 'p) subFont option" where
  "placeGlyph pk g sf =
     (case uploadCharTexture pk (snd g) sf of
        None \<Rightarrow> None
      | Some (ci1, sf1) \<Rightarrow> map_option snd (addCharInfo (fst g) ci1 sf1))"


definition cursorPageRefuses ::
  "('d, 'p) packer \<Rightarrow> 'd charInfo \<Rightarrow> ('d, 'p) subFont \<Rightarrow> bool" where
  "cursorPageRefuses pk ci sf \<longleftrightarrow>
     \<not> fst (pk_upload pk ci
              (if sf_lastIndex sf = - 1 then pk_empty pk
               else fa_packing (sf_fontAtlases sf ! nat (sf_lastIndex sf))))"


text \<open>
  A packer for running the model: a page takes glyphs as long as their widths add up to
  at most 256.
\<close>

definition row_packer :: "(unit, real) packer" where
  "row_packer =
     \<lparr> pk_empty = 0,
       pk_upload = (\<lambda>ci used. if used + ci_w ci \<le> 256 then (True, used + ci_w ci)
                                else (False, used)) \<rparr>"

definition glyph :: "real \<Rightarrow> unit charInfo" where
  "glyph w = \<lparr> ci_index = 0, ci_data = Some (), ci_w = w, ci_h = 20 \<rparr>"

subsection \<open>Invariants and sample runs of the glyph atlas\<close>

text \<open>
  Two invariants of the reachable states. The cursor is the index of the last page, unless
  \<open>destroy\<close> has emptied the array; \<open>live\<close> is the first alternative. The instance
  ids of the pages' textures are pairwise different and none is beyond the counter.
\<close>

definition cursor_inv :: "('d, 'p) subFont \<Rightarrow> bool" where
  "cursor_inv sf \<longleftrightarrow>
     sf_fontAtlases sf = [] \<or> sf_lastIndex sf = int (length (sf_fontAtlases sf)) - 1"


definition ids_inv :: "('d, 'p) subFont \<Rightarrow> bool" where
  "ids_inv sf \<longleftrightarrow>
     distinct (map (\<lambda>a. tex_instanceId (fa_texture a)) (sf_fontAtlases sf)) \<and>
     (\<forall>a \<in> set (sf_fontAtlases sf). tex_instanceId (fa_texture a) \<le> sf_instanceIds sf)"


definition font_a :: "(unit, real) subFont" where
  "font_a = the (placeGlyph row_packer (''a'', glyph 200) (newSubFont 0))"

section \<open>RenderQueue: the comparators and the sort\<close>

text \<open>
  The first unit of \<open>src/unnamed/part_000\<close>. A render element is compared through its
  component's \<open>priority\<close> and \<open>_distanceForSort\<close>, exact reals here; \<open>detail\<close> stands
  for everything else an element carries, which tells apart two elements with equal keys.
\<close>

record 'x component =
  priority :: real
  distanceForSort :: real
  detail :: 'x

record 'x renderElement =
  component :: "'x component"

text \<open>\<open>x || y\<close> is \<open>y\<close> when the number \<open>x\<close> is zero, and \<open>x\<close> otherwise.\<close>

definition compareFromNearToFar :: "'x renderElement \<Rightarrow> 'x renderElement \<Rightarrow> real" where
  "compareFromNearToFar a b =
     (if priority (component a) - priority (component b) \<noteq> 0
      then priority (component a) - priority (component b)
      else distanceForSort (component a) - distanceForSort (component b))"

definition compareFromFarToNear :: "'x renderElement \<Rightarrow> 'x renderElement \<Rightarrow> real" where
  "compareFromFarToNear a b =
     (if priority (component a) - priority (component b) \<noteq> 0
      then priority (component a) - priority (component b)
      else distanceForSort (component b) - distanceForSort (component a))"

text \<open>
  The array is a list, read with \<open>!\<close> and written with \<open>[_ := _]\<close>. \<open>sort\<close> runs the
  algorithm on the whole array and every recursive call on a part of its range, so all
  indices read or written lie in \<open>from..<to\<close>, below the length.

  The inner loop of \<open>_insertionSort\<close>. Its counter \<open>j\<close> runs down to \<open>from - 1\<close>,
  which is \<open>-1\<close> when \<open>from\<close> is 0; the model counts \<open>j1 = j + 1\<close> instead, a
  natural number. The loop returns the array and the final \<open>j + 1\<close>, where the caller
  stores the element.
\<close>

fun insertionLoop ::
  "('a \<Rightarrow> 'a \<Rightarrow> real) \<Rightarrow> 'a \<Rightarrow> nat \<Rightarrow> 'a list \<Rightarrow> nat \<Rightarrow> 'a list \<times> nat" where
  "insertionLoop compareFunc element from a j1 =
     (if from < j1
      then
        let tmp = a ! (j1 - 1);
            order = compareFunc tmp element
        in if order > 0
           then insertionLoop compareFunc element from (a[j1 := tmp]) (j1 - 1)
           else (a, j1)
      else (a, j1))"

function insertionSortFrom ::
  "('a \<Rightarrow> 'a \<Rightarrow> real) \<Rightarrow> nat \<Rightarrow> nat \<Rightarrow> 'a list \<Rightarrow> nat \<Rightarrow> 'a list" where
  "insertionSortFrom compareFunc from to a i =
     (if i < to
      then
        let element = a ! i;
            (a1, j1) = insertionLoop compareFunc element from a i
        in insertionSortFrom compareFunc from to (a1[j1 := element]) (i + 1)
      else a)"
  by pat_completeness auto
termination
  by (relation "measure (\<lambda>(compareFunc, from, to, a, i). to - i)") auto

definition insertionSort ::
  "('a \<Rightarrow> 'a \<Rightarrow> real) \<Rightarrow> 'a list \<Rightarrow> nat \<Rightarrow> nat \<Rightarrow> 'a list" where
  "insertionSort compareFunc a from to = insertionSortFrom compareFunc from to a (from + 1)"

text \<open>
  The \<open>do ... while\<close> loop inside the partition loop: \<open>high_start\<close> steps down until
  it meets \<open>i\<close>, which ends the whole partition loop (\<open>None\<close>), or until the element
  there is not greater than the pivot (\<open>Some order\<close>). The partition loop enters it only
  with \<open>i < high_start\<close>; the first test stands for that precondition and is never true
  in a run.
\<close>

function scanDown ::
  "('a \<Rightarrow> 'a \<Rightarrow> real) \<Rightarrow> 'a \<Rightarrow> 'a list \<Rightarrow> nat \<Rightarrow> nat \<Rightarrow> nat \<times> real option" where
  "scanDown compareFunc pivot a i high_start =
     (if high_start \<le> i then (high_start, None)
      else
        let high_start = high_start - 1
        in if high_start = i then (high_start, None)
           else
             let top_elem = a ! high_start;
                 order = compareFunc top_elem pivot
             in if order > 0 then scanDown compareFunc pivot a i high_start
                else (high_start, Some order))"
  by pat_completeness auto
termination
  by (relation "measure (\<lambda>(compareFunc, pivot, a, i, high_start). high_start)") auto

declare insertionLoop.simps [simp del] insertionSortFrom.simps [simp del]
  scanDown.simps [simp del]

lemma scanDown_bounds:
  "scanDown compareFunc pivot a i high_start = (hs, r) \<Longrightarrow> i < high_start \<Longrightarrow>
   i \<le> hs \<and> hs < high_start \<and> (r \<noteq> None \<longrightarrow> i < hs) \<and> (r = None \<longrightarrow> hs = i)"
proof (induction compareFunc pivot a i high_start rule: scanDown.induct)
  case (1 compareFunc pivot a i high_start)
  show ?case
  proof (cases "high_start - 1 = i")
    case True
    with "1.prems" show ?thesis by (simp add: scanDown.simps[of _ _ _ i high_start])
  next
    case False
    with "1.prems" have lt: "i < high_start - 1" by simp
    show ?thesis
    proof (cases "compareFunc (a ! (high_start - 1)) pivot > 0")
      case True
      with "1.prems" False
      have "scanDown compareFunc pivot a i (high_start - 1) = (hs, r)"
        by (simp add: scanDown.simps[of _ _ _ i high_start] Let_def)
      from "1.IH"[OF _ refl False refl refl True this lt] "1.prems"(2)
      show ?thesis by linarith
    next
      case c: False
      with "1.prems" False lt show ?thesis
        by (auto simp add: scanDown.simps[of _ _ _ i high_start] Let_def)
    qed
  qed
qed

text \<open>
  The partition loop of \<open>_quickSort\<close>, from its counter \<open>i\<close> on. It returns the array
  with the final \<open>low_end\<close> and \<open>high_start\<close>.
\<close>

function partitionLoop ::
  "('a \<Rightarrow> 'a \<Rightarrow> real) \<Rightarrow> 'a \<Rightarrow> 'a list \<Rightarrow> nat \<Rightarrow> nat \<Rightarrow> nat \<Rightarrow> 'a list \<times> nat \<times> nat" where
  "partitionLoop compareFunc pivot a low_end high_start i =
     (if i < high_start
      then
        let element = a ! i;
            order = compareFunc element pivot
        in if order < 0
           then partitionLoop compareFunc pivot (a[i := a ! low_end, low_end := element])
                  (low_end + 1) high_start (i + 1)
           else if order > 0
           then
             (case scanDown compareFunc pivot a i high_start of
                (high_start, None) \<Rightarrow> (a, low_end, high_start)
              | (high_start, Some order) \<Rightarrow>
                  let a = a[i := a ! high_start, high_start := element]
                  in if order < 0
                     then
                       let element = a ! i
                       in partitionLoop compareFunc pivot (a[i := a ! low_end, low_end := element])
                            (low_end + 1) high_start (i + 1)
                     else partitionLoop compareFunc pivot a low_end high_start (i + 1))
           else partitionLoop compareFunc pivot a low_end high_start (i + 1)
      else (a, low_end, high_start))"
  by pat_completeness auto
termination
proof (relation "measure (\<lambda>(compareFunc, pivot, a, low_end, high_start, i). high_start - i)",
    goal_cases)
  case 1
  show ?case by simp
next
  case 2
  then show ?case by simp
next
  case 3
  then show ?case by (auto dest!: scanDown_bounds[OF sym])
next
  case 4
  then show ?case by (auto dest!: scanDown_bounds[OF sym])
next
  case 5
  then show ?case by simp
qed

declare partitionLoop.simps [simp del]

lemma partitionLoop_bounds:
  "partitionLoop compareFunc pivot a low_end high_start i = (a', le, hs) \<Longrightarrow>
   low_end < i \<Longrightarrow> i \<le> high_start \<Longrightarrow>
   low_end \<le> le \<and> le < hs \<and> hs \<le> high_start \<and> i \<le> hs \<and> length a' = length a"
proof (induction compareFunc pivot a low_end high_start i arbitrary: a' le hs
    rule: partitionLoop.induct)
  case (1 compareFunc pivot a low_end high_start i)
  note eq = "1.prems"(1)[unfolded partitionLoop.simps[of compareFunc pivot a low_end high_start i]]
  show ?case
  proof (cases "i < high_start")
    case False
    with eq "1.prems" show ?thesis by simp
  next
    case lt: True
    consider (less) "compareFunc (a ! i) pivot < 0"
      | (greater) "compareFunc (a ! i) pivot > 0"
      | (equal) "compareFunc (a ! i) pivot = 0" by linarith
    then show ?thesis
    proof cases
      case less
      with eq lt have "partitionLoop compareFunc pivot (a[i := a ! low_end, low_end := a ! i])
          (low_end + 1) high_start (i + 1) = (a', le, hs)" by (simp add: Let_def)
      from "1.IH"(1)[OF lt refl refl less this] "1.prems" lt show ?thesis by simp
    next
      case equal
      with eq lt have "partitionLoop compareFunc pivot a low_end high_start (i + 1) = (a', le, hs)"
        by (simp add: Let_def)
      from "1.IH"(4)[OF lt refl refl _ _ this] equal "1.prems" lt show ?thesis by simp
    next
      case greater
      obtain h r where sd: "scanDown compareFunc pivot a i high_start = (h, r)"
        by (cases "scanDown compareFunc pivot a i high_start")
      note b = scanDown_bounds[OF sd lt]
      show ?thesis
      proof (cases r)
        case None
        with eq lt greater sd b "1.prems" show ?thesis by (auto simp add: Let_def)
      next
        case (Some order)
        show ?thesis
        proof (cases "order < 0")
          case True
          with eq lt greater sd Some
          have "partitionLoop compareFunc pivot
                  ((a[i := a ! h, h := a ! i])[i := (a[i := a ! h, h := a ! i]) ! low_end,
                     low_end := (a[i := a ! h, h := a ! i]) ! i])
                  (low_end + 1) h (i + 1) = (a', le, hs)"
            by (simp add: Let_def)
          from "1.IH"(2)[OF lt refl refl _ greater sd[symmetric] Some refl True refl this]
            greater b Some "1.prems" lt
          show ?thesis by simp
        next
          case False
          with eq lt greater sd Some
          have "partitionLoop compareFunc pivot (a[i := a ! h, h := a ! i]) low_end h (i + 1) =
                  (a', le, hs)"
            by (simp add: Let_def)
          from "1.IH"(3)[OF lt refl refl _ greater sd[symmetric] Some refl False this]
            greater b Some "1.prems" lt
          show ?thesis by simp
        qed
      qed
    qed
  qed
qed

text \<open>
  The three comparisons that order \<open>v0\<close>, \<open>v1\<close> and \<open>v2\<close>, and the body of the loop
  of \<open>_quickSort\<close> from the choice of the pivot to the end of the partition loop.
  \<open>(from + to) >> 1\<close> halves the sum, which fits 32 bits for any array.
\<close>

definition medianOfThree ::
  "('a \<Rightarrow> 'a \<Rightarrow> real) \<Rightarrow> 'a \<Rightarrow> 'a \<Rightarrow> 'a \<Rightarrow> 'a \<times> 'a \<times> 'a" where
  "medianOfThree compareFunc v0 v1 v2 =
     (let c01 = compareFunc v0 v1;
          (v0, v1) = (if c01 > 0 then (v1, v0) else (v0, v1));
          c02 = compareFunc v0 v2
      in if c02 \<ge> 0 then (v2, v0, v1)
         else
           let c12 = compareFunc v1 v2
           in if c12 > 0 then (v0, v2, v1) else (v0, v1, v2))"

definition partitionRange ::
  "('a \<Rightarrow> 'a \<Rightarrow> real) \<Rightarrow> 'a list \<Rightarrow> nat \<Rightarrow> nat \<Rightarrow> 'a list \<times> nat \<times> nat" where
  "partitionRange compareFunc a from to =
     (let third_index = (from + to) div 2;
          (v0, v1, v2) = medianOfThree compareFunc (a ! from) (a ! (to - 1)) (a ! third_index);
          a = a[from := v0, to - 1 := v2];
          pivot = v1;
          low_end = from + 1;
          high_start = to - 1;
          a = a[third_index := a ! low_end, low_end := pivot]
      in partitionLoop compareFunc pivot a low_end high_start (low_end + 1))"

lemma partitionRange_bounds:
  "partitionRange compareFunc a from to = (a', le, hs) \<Longrightarrow> 10 < to - from \<Longrightarrow>
   from < le \<and> le < hs \<and> hs < to \<and> length a' = length a"
  unfolding partitionRange_def Let_def
  by (auto split: prod.splits dest!: partitionLoop_bounds)

function quickSort ::
  "('a \<Rightarrow> 'a \<Rightarrow> real) \<Rightarrow> 'a list \<Rightarrow> nat \<Rightarrow> nat \<Rightarrow> 'a list" where
  "quickSort compareFunc a from to =
     (if to - from \<le> 10 then insertionSort compareFunc a from to
      else
        (case partitionRange compareFunc a from to of
           (a, low_end, high_start) \<Rightarrow>
             if to - high_start < low_end - from
             then quickSort compareFunc (quickSort compareFunc a high_start to) from low_end
             else quickSort compareFunc (quickSort compareFunc a from low_end) high_start to))"
  by pat_completeness auto
termination
proof (relation "measure (\<lambda>(compareFunc, a, from, to). to - from)", goal_cases)
  case 1
  show ?case by simp
next
  case 2
  then show ?case by (auto dest!: partitionRange_bounds[OF sym])
next
  case 3
  then show ?case by (auto dest!: partitionRange_bounds[OF sym])
next
  case 4
  then show ?case by (auto dest!: partitionRange_bounds[OF sym])
next
  case 5
  then show ?case by (auto dest!: partitionRange_bounds[OF sym])
qed

declare quickSort.simps [simp del]

definition sort_items :: "('a \<Rightarrow> 'a \<Rightarrow> real) \<Rightarrow> 'a list \<Rightarrow> 'a list" where
  "sort_items compareFunc items = quickSort compareFunc items 0 (length items)"

subsection \<open>What the sort is compared with\<close>

text \<open>
  A plain insertion sort, written from the spec's words and without an array: the elements
  are taken from left to right, and each is put behind the ones before it and moved left
  past every element that compares greater than it (\<open>compareFunc y x > 0\<close>).
\<close>

function insertFromBack :: "('a \<Rightarrow> 'a \<Rightarrow> real) \<Rightarrow> 'a \<Rightarrow> 'a list \<Rightarrow> 'a list" where
  "insertFromBack compareFunc x ys =
     (if ys = [] then [x]
      else if compareFunc (last ys) x > 0
      then insertFromBack compareFunc x (butlast ys) @ [last ys]
      else ys @ [x])"
  by pat_completeness auto
termination
  by (relation "measure (\<lambda>(compareFunc, x, ys). length ys)") auto

declare insertFromBack.simps [simp del]

definition plainInsertionSort :: "('a \<Rightarrow> 'a \<Rightarrow> real) \<Rightarrow> 'a list \<Rightarrow> 'a list" where
  "plainInsertionSort compareFunc xs = foldl (\<lambda>acc x. insertFromBack compareFunc x acc) [] xs"

text \<open>The part of an array between two indices: \<open>a[from], ..., a[to - 1]\<close>.\<close>

definition segment :: "'a list \<Rightarrow> nat \<Rightarrow> nat \<Rightarrow> 'a list" where
  "segment a from to = take (to - from) (drop from a)"

text \<open>
  A comparator orders by a key when its sign says how the keys of its arguments compare:
  negative for a smaller key, positive for a greater one, zero for equal keys.
\<close>

definition orders_by :: "('a \<Rightarrow> 'a \<Rightarrow> real) \<Rightarrow> ('a \<Rightarrow> 'k::linorder) \<Rightarrow> bool" where
  "orders_by c key \<longleftrightarrow> (\<forall>x y. (c x y < 0) = (key x < key y) \<and> (0 < c x y) = (key y < key x))"

text \<open>
  What the proofs say about an array \<open>a'\<close> made from \<open>a\<close> inside \<open>from..<to\<close>:
  it holds the same elements and is unchanged outside the range. \<open>part_inv\<close> is the
  invariant of the partition loop: the elements before \<open>low_end\<close> are not above the
  pivot, those from \<open>low_end\<close> up to \<open>i\<close> equal it, and those from
  \<open>high_start\<close> on are not below it. \<open>sorted_range\<close> says the keys do not
  decrease along the range.
\<close>

definition same_outside :: "nat \<Rightarrow> nat \<Rightarrow> 'a list \<Rightarrow> 'a list \<Rightarrow> bool" where
  "same_outside from to a a' \<longleftrightarrow>
     length a' = length a \<and> mset a' = mset a \<and> (\<forall>k. k < from \<or> to \<le> k \<longrightarrow> a' ! k = a ! k)"

definition part_inv ::
  "('a \<Rightarrow> 'k::linorder) \<Rightarrow> 'a \<Rightarrow> nat \<Rightarrow> nat \<Rightarrow> 'a list \<Rightarrow> nat \<Rightarrow> nat \<Rightarrow> nat \<Rightarrow> bool" where
  "part_inv key pivot from to a le i hs \<longleftrightarrow>
     from < le \<and> le < i \<and> i \<le> hs \<and> hs < to \<and> to \<le> length a \<and>
     (\<forall>k. from \<le> k \<and> k < le \<longrightarrow> key (a ! k) \<le> key pivot) \<and>
     (\<forall>k. le \<le> k \<and> k < i \<longrightarrow> key (a ! k) = key pivot) \<and>
     (\<forall>k. hs \<le> k \<and> k < to \<longrightarrow> key pivot \<le> key (a ! k))"

definition sorted_range :: "('a \<Rightarrow> 'k::linorder) \<Rightarrow> 'a list \<Rightarrow> nat \<Rightarrow> nat \<Rightarrow> bool" where
  "sorted_range key a from to \<longleftrightarrow> (\<forall>i j. from \<le> i \<and> i < j \<and> j < to \<longrightarrow> key (a ! i) \<le> key (a ! j))"

text \<open>
  The sort keys of an element, and the two orders the queues are sorted by: near to far is the
  lexicographic order of (priority, distance); far to near orders by priority and, for
  equal priority, by falling distance. \<open>farKey\<close> is the key whose lexicographic order
  is far to near.
\<close>

definition sortKey :: "'x renderElement \<Rightarrow> real \<times> real" where
  "sortKey e = (priority (component e), distanceForSort (component e))"

definition farKey :: "'x renderElement \<Rightarrow> real \<times> real" where
  "farKey e = (priority (component e), - distanceForSort (component e))"

definition nearToFarOrder :: "'x renderElement \<Rightarrow> 'x renderElement \<Rightarrow> bool" where
  "nearToFarOrder a b \<longleftrightarrow>
     priority (component a) < priority (component b) \<or>
     (priority (component a) = priority (component b) \<and>
      distanceForSort (component a) \<le> distanceForSort (component b))"

definition farToNearOrder :: "'x renderElement \<Rightarrow> 'x renderElement \<Rightarrow> bool" where
  "farToNearOrder a b \<longleftrightarrow>
     priority (component a) < priority (component b) \<or>
     (priority (component a) = priority (component b) \<and>
      distanceForSort (component b) \<le> distanceForSort (component a))"

text \<open>
  Sample queues of twelve elements, one more than the insertion sort takes: \<open>tied_run\<close>
  is sorted near to far and its second and third elements have equal keys; the keys of
  \<open>clear_run\<close> (near to far) and \<open>far_run\<close> (far to near) are all different.
\<close>

definition element :: "real \<Rightarrow> real \<Rightarrow> 'x \<Rightarrow> 'x renderElement" where
  "element p d x = \<lparr> component = \<lparr> priority = p, distanceForSort = d, detail = x \<rparr> \<rparr>"

definition tied_run :: "string renderElement list" where
  "tied_run = [element 0 0 ''a'', element 0 1 ''b'', element 0 1 ''c'', element 0 3 ''d'',
     element 0 4 ''e'', element 0 5 ''f'', element 0 6 ''g'', element 0 7 ''h'',
     element 0 8 ''i'', element 0 9 ''j'', element 0 10 ''k'', element 0 11 ''l'']"

definition clear_run :: "string renderElement list" where
  "clear_run = [element 0 0 ''a'', element 0 1 ''b'', element 0 2 ''c'', element 0 3 ''d'',
     element 0 4 ''e'', element 0 5 ''f'', element 0 6 ''g'', element 0 7 ''h'',
     element 0 8 ''i'', element 0 9 ''j'', element 1 0 ''k'', element 1 1 ''l'']"

definition far_run :: "string renderElement list" where
  "far_run = [element 0 9 ''a'', element 0 8 ''b'', element 0 7 ''c'', element 0 6 ''d'',
     element 0 5 ''e'', element 0 4 ''f'', element 0 3 ''g'', element 0 2 ''h'',
     element 0 1 ''i'', element 0 0 ''j'', element 1 1 ''k'', element 1 0 ''l'']"

section \<open>Properties of the camera\<close>

lemma projMatChange_dirty: "projDirty (projMatChange c)"
  by (simp add: projDirty_def projMatChange_def)

lemma projMatChange_matrices: "matrices (projMatChange c) = matrices c"
  by (simp add: matrices_def projMatChange_def)

text \<open>
  C6. Each of the seven setters \<open>nearClipPlane\<close>, \<open>farClipPlane\<close>, \<open>fieldOfView\<close>,
  \<open>orthographicSize\<close>, \<open>viewport\<close>, \<open>aspectRatio\<close> and \<open>isOrthographic\<close> raises all
  four projection-derived dirty bits, whatever they were before, and leaves every cached
  matrix of the camera as it was: a setter recomputes nothing.
\<close>

theorem setters_mark_dirty_and_recompute_nothing:
  "projDirty (set_nearClipPlane x c) \<and> matrices (set_nearClipPlane x c) = matrices c \<and>
   projDirty (set_farClipPlane x c) \<and> matrices (set_farClipPlane x c) = matrices c \<and>
   projDirty (set_fieldOfView x c) \<and> matrices (set_fieldOfView x c) = matrices c \<and>
   projDirty (set_orthographicSize x c) \<and> matrices (set_orthographicSize x c) = matrices c \<and>
   projDirty (set_viewport v c) \<and> matrices (set_viewport v c) = matrices c \<and>
   projDirty (set_aspectRatio x c) \<and> matrices (set_aspectRatio x c) = matrices c \<and>
   projDirty (set_isOrthographic b c) \<and> matrices (set_isOrthographic b c) = matrices c"
  by (simp add: set_nearClipPlane_def set_farClipPlane_def set_fieldOfView_def
      set_orthographicSize_def set_viewport_def set_aspectRatio_def set_isOrthographic_def
      projMatChange_dirty projMatChange_matrices)
    (simp add: matrices_def)

lemma manual_projection_kept_while_canvas_unchanged:
  "lastAspectSize c = (canvas_width cv, canvas_height cv) \<Longrightarrow>
   get_projectionMatrix persp orth cv (set_projectionMatrix M c) =
     (M, set_projectionMatrix M c)"
  by (simp add: get_projectionMatrix_def set_projectionMatrix_def projMatChange_def)

text \<open>
  C2. The getter returns the stored matrix only while the canvas still has the size seen
  at the last derivation. A camera that has never been read remembers the size
  \<open>(0, 0)\<close>: on an 800 by 600 canvas the first read after an explicit assignment of
  \<open>M\<close> derives the perspective matrix from the default parameters, returns it and stores
  it over \<open>M\<close>, although \<open>resetProjectionMatrix\<close> was never called; the next read
  returns the derived matrix again.
\<close>

theorem manual_projection_overwritten_by_first_read:
  "fst (get_projectionMatrix persp orth \<lparr> canvas_width = 800, canvas_height = 600 \<rparr>
          (set_projectionMatrix M (newCamera ident))) =
     persp (degreeToRadian 45) (800 / 600) (1 / 10) 100 \<and>
   vc_projectionMatrix (virtualCamera
       (snd (get_projectionMatrix persp orth \<lparr> canvas_width = 800, canvas_height = 600 \<rparr>
          (set_projectionMatrix M (newCamera ident))))) =
     persp (degreeToRadian 45) (800 / 600) (1 / 10) 100 \<and>
   isProjMatSetting
       (snd (get_projectionMatrix persp orth \<lparr> canvas_width = 800, canvas_height = 600 \<rparr>
          (set_projectionMatrix M (newCamera ident)))) \<and>
   fst (get_projectionMatrix persp orth \<lparr> canvas_width = 800, canvas_height = 600 \<rparr>
          (snd (get_projectionMatrix persp orth \<lparr> canvas_width = 800, canvas_height = 600 \<rparr>
             (set_projectionMatrix M (newCamera ident))))) =
     persp (degreeToRadian 45) (800 / 600) (1 / 10) 100"
  by (simp add: get_projectionMatrix_def set_projectionMatrix_def projMatChange_def
      newCamera_def get_aspectRatio_def Let_def)

text \<open>
  The same run with matrices that are told apart by name: the matrix read back is the
  derived one, not the one that was assigned.
\<close>

theorem manual_projection_overwritten_by_first_read_witness:
  "fst (get_projectionMatrix (\<lambda>fovy aspect near far. ''perspective'')
          (\<lambda>left right bottom top near far. ''ortho'')
          \<lparr> canvas_width = 800, canvas_height = 600 \<rparr>
          (set_projectionMatrix ''manual'' (newCamera ''identity''))) = ''perspective'' \<and>
   isProjMatSetting
     (snd (get_projectionMatrix (\<lambda>fovy aspect near far. ''perspective'')
          (\<lambda>left right bottom top near far. ''ortho'')
          \<lparr> canvas_width = 800, canvas_height = 600 \<rparr>
          (set_projectionMatrix ''manual'' (newCamera ''identity''))))"
  using manual_projection_overwritten_by_first_read
    [of "\<lambda>fovy aspect near far. ''perspective''"
        "\<lambda>left right bottom top near far. ''ortho''" "''manual''" "''identity''"]
  by simp

section \<open>Properties of the coordinate transforms\<close>

lemma mat_apply_multiply: "mat_apply (mat_multiply l r) v = mat_apply l (mat_apply r v)"
  by (cases v) (simp add: mat_apply_def mat_multiply_def algebra_simps)

lemma mat_apply_vscale: "mat_apply m (vscale k v) = vscale k (mat_apply m v)"
  by (cases v) (simp add: mat_apply_def vscale_def algebra_simps)

lemma mat_apply_identity: "mat_apply mat_identity v = v"
  by (cases v) (simp add: mat_apply_def mat_identity_def)

lemma perspective_shape_inverse:
  assumes "a \<noteq> 0" "b \<noteq> 0" "d \<noteq> 0"
  shows "\<exists>ip. mat_invert \<lparr> e0 = a, e1 = 0, e2 = 0, e3 = 0, e4 = 0, e5 = b, e6 = 0, e7 = 0,
                  e8 = 0, e9 = 0, e10 = c, e11 = - 1, e12 = 0, e13 = 0, e14 = d, e15 = 0 \<rparr> = Some ip \<and>
           (\<forall>v. mat_apply ip (mat_apply \<lparr> e0 = a, e1 = 0, e2 = 0, e3 = 0, e4 = 0, e5 = b, e6 = 0,
                  e7 = 0, e8 = 0, e9 = 0, e10 = c, e11 = - 1, e12 = 0, e13 = 0, e14 = d,
                  e15 = 0 \<rparr> v) = v)"
  using assms by (auto simp add: mat_invert_def Let_def mat_apply_def field_simps)

lemma ortho_shape_inverse:
  assumes "a \<noteq> 0" "b \<noteq> 0" "c \<noteq> 0"
  shows "\<exists>ip. mat_invert \<lparr> e0 = a, e1 = 0, e2 = 0, e3 = 0, e4 = 0, e5 = b, e6 = 0, e7 = 0,
                  e8 = 0, e9 = 0, e10 = c, e11 = 0, e12 = tx, e13 = ty, e14 = tz, e15 = 1 \<rparr> = Some ip \<and>
           (\<forall>v. mat_apply ip (mat_apply \<lparr> e0 = a, e1 = 0, e2 = 0, e3 = 0, e4 = 0, e5 = b, e6 = 0,
                  e7 = 0, e8 = 0, e9 = 0, e10 = c, e11 = 0, e12 = tx, e13 = ty, e14 = tz,
                  e15 = 1 \<rparr> v) = v)"
  using assms by (auto simp add: mat_invert_def Let_def mat_apply_def field_simps)

lemma perspective_inverse:
  assumes "tan (fovy / 2) \<noteq> 0" "aspect \<noteq> 0" "near \<noteq> far" "near \<noteq> 0" "far \<noteq> 0"
  shows "\<exists>ip. mat_invert (mat_perspective fovy aspect near far) = Some ip \<and>
           (\<forall>v. mat_apply ip (mat_apply (mat_perspective fovy aspect near far) v) = v)"
  unfolding mat_perspective_def Let_def
  using assms by (intro perspective_shape_inverse) simp_all

lemma ortho_inverse:
  assumes "left \<noteq> right" "bottom \<noteq> upper" "near \<noteq> far"
  shows "\<exists>ip. mat_invert (mat_ortho left right bottom upper near far) = Some ip \<and>
           (\<forall>v. mat_apply ip (mat_apply (mat_ortho left right bottom upper near far) v) = v)"
  unfolding mat_ortho_def Let_def
  using assms by (intro ortho_shape_inverse) simp_all

lemma affine_inverse:
  assumes "e3 a = 0" "e7 a = 0" "e11 a = 0" "e15 a = 1" "mat_invert a = Some b"
  shows "e3 b = 0 \<and> e7 b = 0 \<and> e11 b = 0 \<and> e15 b = 1"
  using assms by (auto simp add: mat_invert_def Let_def split: if_splits)

lemma affine_right_inverse:
  assumes "e3 a = 0" "e7 a = 0" "e11 a = 0" "e15 a = 1" "mat_invert a = Some b"
  shows "mat_multiply a b = mat_identity"
proof -
  obtain a0 a1 a2 a4 a5 a6 a8 a9 a10 a12 a13 a14 where a:
    "a = \<lparr> e0 = a0, e1 = a1, e2 = a2, e3 = 0, e4 = a4, e5 = a5, e6 = a6, e7 = 0,
           e8 = a8, e9 = a9, e10 = a10, e11 = 0, e12 = a12, e13 = a13, e14 = a14, e15 = 1 \<rparr>"
    using assms(1-4) by (cases a) auto
  define d where "d = (a0 * a5 - a1 * a4) * a10 - (a0 * a6 - a2 * a4) * a9 + (a1 * a6 - a2 * a5) * a8"
  have d: "d \<noteq> 0"
    using assms(5) unfolding a d_def by (auto simp add: mat_invert_def Let_def split: if_splits)
  have b: "b = \<lparr> e0 = (a5 * a10 - a6 * a9) / d, e1 = (a2 * a9 - a1 * a10) / d,
                 e2 = (a1 * a6 - a2 * a5) / d, e3 = 0,
                 e4 = (a6 * a8 - a4 * a10) / d, e5 = (a0 * a10 - a2 * a8) / d,
                 e6 = (- (a0 * a6 - a2 * a4)) / d, e7 = 0,
                 e8 = (a4 * a9 - a5 * a8) / d, e9 = (a1 * a8 - a0 * a9) / d,
                 e10 = (a0 * a5 - a1 * a4) / d, e11 = 0,
                 e12 = (a5 * (a8 * a14 - a10 * a12) - a4 * (a9 * a14 - a10 * a13) - a6 * (a8 * a13 - a9 * a12)) / d,
                 e13 = (a0 * (a9 * a14 - a10 * a13) - a1 * (a8 * a14 - a10 * a12) + a2 * (a8 * a13 - a9 * a12)) / d,
                 e14 = (a13 * (a0 * a6 - a2 * a4) - a12 * (a1 * a6 - a2 * a5) - a14 * (a0 * a5 - a1 * a4)) / d,
                 e15 = 1 \<rparr>"
    using assms(5) d unfolding a d_def
    by (simp add: mat_invert_def Let_def split: if_splits) (simp add: field_simps)
  show ?thesis
    unfolding a b mat_multiply_def mat_identity_def
    using d apply simp
    apply (intro conjI)
    apply (simp_all add: field_simps)
    apply (simp_all add: d_def algebra_simps)
    done
qed

lemma affine_apply:
  assumes "e3 V = 0" "e7 V = 0" "e11 V = 0" "e15 V = 1"
  shows "transformToVec4 p V =
           (fst (transformCoordinate p V), fst (snd (transformCoordinate p V)),
            snd (snd (transformCoordinate p V)), 1)"
  using assms by (cases p) (simp add: transformCoordinate_def transformToVec4_def mat_apply_def)

lemma unproject_core:
  assumes WV: "\<forall>v. mat_apply W (mat_apply V v) = v"
    and IPP: "\<forall>v. mat_apply IP (mat_apply P v) = v"
    and aff: "e3 V = 0" "e7 V = 0" "e11 V = 0" "e15 V = 1"
    and clip: "transformToVec4 (transformCoordinate p V) P = (X, Y, Z, Wc)"
    and w: "Wc \<noteq> 0"
  shows "transformCoordinate (X / Wc, Y / Wc, Z / Wc) (mat_multiply W IP) = p"
proof -
  obtain px py pz where p: "p = (px, py, pz)" by (cases p) auto
  obtain cx cy cz where cam: "transformCoordinate p V = (cx, cy, cz)"
    by (cases "transformCoordinate p V") auto
  have v4: "mat_apply V (px, py, pz, 1) = (cx, cy, cz, 1)"
    using affine_apply[OF aff, of p] cam by (simp add: p transformToVec4_def)
  have c4: "mat_apply P (cx, cy, cz, 1) = (X, Y, Z, Wc)"
    using clip cam by (simp add: transformToVec4_def)
  have "(X / Wc, Y / Wc, Z / Wc, 1) = vscale (1 / Wc) (X, Y, Z, Wc)"
    using w by (simp add: vscale_def)
  then have "mat_apply (mat_multiply W IP) (X / Wc, Y / Wc, Z / Wc, 1) =
             vscale (1 / Wc) (mat_apply W (mat_apply IP (X, Y, Z, Wc)))"
    by (simp add: mat_apply_multiply mat_apply_vscale)
  also have "mat_apply IP (X, Y, Z, Wc) = (cx, cy, cz, 1)"
    using IPP c4 by metis
  also have "mat_apply W (cx, cy, cz, 1) = (px, py, pz, 1)"
    using WV v4 by metis
  finally have "mat_apply (mat_multiply W IP) (X / Wc, Y / Wc, Z / Wc, 1) =
                (px / Wc, py / Wc, pz / Wc, 1 / Wc)"
    by (simp add: vscale_def)
  then show ?thesis
    using w by (simp add: transformCoordinate_def transformToVec4_def p)
qed

lemma perspective_clip:
  "mat_apply (mat_perspective fovy aspect near far) (cx, cy, cz, 1) =
     (cx * ((1 / tan (fovy / 2)) / aspect), cy * (1 / tan (fovy / 2)),
      cz * ((far + near) * (1 / (near - far))) + 2 * far * near * (1 / (near - far)), - cz)"
  by (simp add: mat_perspective_def mat_apply_def Let_def)

lemma ortho_clip:
  "mat_apply (mat_ortho left right bottom upper near far) (cx, cy, cz, 1) =
     (cx * (- 2 * (1 / (left - right))) + (left + right) * (1 / (left - right)),
      cy * (- 2 * (1 / (bottom - upper))) + (upper + bottom) * (1 / (bottom - upper)),
      cz * (2 * (1 / (near - far))) + (far + near) * (1 / (near - far)), 1)"
  by (simp add: mat_ortho_def mat_apply_def Let_def)

lemma get_viewMatrix_dirty:
  assumes "isViewMatrixDirty c"
    and "mat_invert (rotationTranslation (worldRotationQuaternion tf) (worldPosition tf)) = Some V"
  shows "get_viewMatrix tf c =
           (V, c\<lparr> isViewMatrixDirty := False,
                   virtualCamera := (virtualCamera c)\<lparr> vc_viewMatrix := V \<rparr> \<rparr>)"
  using assms by (simp add: get_viewMatrix_def Let_def)

lemma projectionMatrix_cached:
  assumes "\<not> isProjectionDirty c" "lastAspectSize c = (canvas_width cv, canvas_height cv)"
  shows "projectionMatrix cv c = (vc_projectionMatrix (virtualCamera c), c)"
  using assms by (simp add: projectionMatrix_def get_projectionMatrix_def)

lemma get_viewMatrix_fresh:
  assumes "isViewMatrixDirty c \<or> vc_viewMatrix (virtualCamera c) = V"
    and "mat_invert (rotationTranslation (worldRotationQuaternion tf) (worldPosition tf)) = Some V"
  shows "get_viewMatrix tf c =
           (V, c\<lparr> isViewMatrixDirty := False,
                   virtualCamera := (virtualCamera c)\<lparr> vc_viewMatrix := V \<rparr> \<rparr>)"
proof (cases "isViewMatrixDirty c")
  case True
  then show ?thesis using assms(2) by (rule get_viewMatrix_dirty)
next
  case False
  then have "vc_viewMatrix (virtualCamera c) = V" using assms(1) by simp
  then have "c\<lparr> isViewMatrixDirty := False,
                 virtualCamera := (virtualCamera c)\<lparr> vc_viewMatrix := V \<rparr> \<rparr> = c"
    using False by (cases c) auto
  then show ?thesis using False \<open>vc_viewMatrix (virtualCamera c) = V\<close>
    by (simp add: get_viewMatrix_def)
qed

lemma projectionMatrix_fresh:
  assumes "\<not> isProjMatSetting c"
    and "isProjectionDirty c \<or> lastAspectSize c \<noteq> (canvas_width cv, canvas_height cv) \<or>
         vc_projectionMatrix (virtualCamera c) = derivedProjection cv c"
  shows "projectionMatrix cv c =
           (derivedProjection cv c,
            c\<lparr> isProjectionDirty := False,
               lastAspectSize := (canvas_width cv, canvas_height cv),
               virtualCamera := (virtualCamera c)\<lparr> vc_projectionMatrix := derivedProjection cv c \<rparr> \<rparr>)"
proof (cases "isProjectionDirty c \<or> lastAspectSize c \<noteq> (canvas_width cv, canvas_height cv)")
  case True
  then show ?thesis using assms(1)
    by (auto simp add: projectionMatrix_def get_projectionMatrix_def derivedProjection_def Let_def
        get_aspectRatio_def prod_eq_iff split: option.splits)
next
  case False
  then have s: "vc_projectionMatrix (virtualCamera c) = derivedProjection cv c"
    using assms(2) by simp
  then have "c\<lparr> isProjectionDirty := False,
               lastAspectSize := (canvas_width cv, canvas_height cv),
               virtualCamera := (virtualCamera c)\<lparr> vc_projectionMatrix := derivedProjection cv c \<rparr> \<rparr>
             = c"
    using False by (cases c) auto
  then show ?thesis using False s projectionMatrix_cached[of c cv] by simp
qed

lemma worldToViewportPoint_fresh:
  assumes auto: "\<not> isProjMatSetting c"
    and fresh: "cachesFresh tf cv c"
    and V: "mat_invert (rotationTranslation (worldRotationQuaternion tf) (worldPosition tf)) = Some V"
    and clip: "transformToVec4 (transformCoordinate p V) (derivedProjection cv c) = (X, Y, Z, Wc)"
  shows "worldToViewportPoint tf cv p c =
           (((X / Wc + 1) * 0.5, (1 - Y / Wc) * 0.5, - snd (snd (transformCoordinate p V))),
            c\<lparr> isViewMatrixDirty := False,
               isProjectionDirty := False,
               lastAspectSize := (canvas_width cv, canvas_height cv),
               virtualCamera := (virtualCamera c)\<lparr> vc_viewMatrix := V,
                  vc_projectionMatrix := derivedProjection cv c \<rparr> \<rparr>)"
proof -
  let ?c1 = "c\<lparr> isViewMatrixDirty := False,
                 virtualCamera := (virtualCamera c)\<lparr> vc_viewMatrix := V \<rparr> \<rparr>"
  have v: "isViewMatrixDirty c \<or> vc_viewMatrix (virtualCamera c) = V"
    using fresh V by (auto simp add: cachesFresh_def)
  have d: "derivedProjection cv ?c1 = derivedProjection cv c"
    by (simp add: derivedProjection_def get_aspectRatio_def split: option.splits)
  have a: "\<not> isProjMatSetting ?c1"
    using auto by simp
  have h: "isProjectionDirty ?c1 \<or> lastAspectSize ?c1 \<noteq> (canvas_width cv, canvas_height cv) \<or>
           vc_projectionMatrix (virtualCamera ?c1) = derivedProjection cv ?c1"
    using fresh unfolding d by (auto simp add: cachesFresh_def)
  have "projectionMatrix cv ?c1 =
          (derivedProjection cv ?c1,
           ?c1\<lparr> isProjectionDirty := False,
               lastAspectSize := (canvas_width cv, canvas_height cv),
               virtualCamera := (virtualCamera ?c1)\<lparr> vc_projectionMatrix := derivedProjection cv ?c1 \<rparr> \<rparr>)"
    using a h by (rule projectionMatrix_fresh)
  then show ?thesis
    using clip by (simp add: worldToViewportPoint_def get_viewMatrix_fresh[OF v V] d Let_def)
qed

lemma getInvViewProjMat_fresh:
  assumes "\<not> isProjectionDirty c"
    and "lastAspectSize c = (canvas_width cv, canvas_height cv)"
    and IP: "mat_invert (vc_projectionMatrix (virtualCamera c)) = Some IP"
    and ip: "isInvProjMatDirty c \<or> inverseProjectionMatrix c = IP"
    and ivp: "isInvViewProjDirty c \<or> invViewProjMat c = mat_multiply (worldMatrix tf) IP"
  shows "fst (getInvViewProjMat tf cv c) = mat_multiply (worldMatrix tf) IP"
proof (cases "isInvViewProjDirty c")
  case False
  then show ?thesis using ivp by (simp add: getInvViewProjMat_def)
next
  case True
  let ?c0 = "c\<lparr> isInvViewProjDirty := False \<rparr>"
  have "fst (getInverseProjectionMatrix cv ?c0) = IP"
  proof (cases "isInvProjMatDirty c")
    case False
    then show ?thesis using ip by (simp add: getInverseProjectionMatrix_def)
  next
    case True
    let ?c1 = "c\<lparr> isInvViewProjDirty := False, isInvProjMatDirty := False \<rparr>"
    have "projectionMatrix cv ?c1 = (vc_projectionMatrix (virtualCamera ?c1), ?c1)"
      using assms(1,2) by (intro projectionMatrix_cached) simp_all
    then show ?thesis
      using True IP by (simp add: getInverseProjectionMatrix_def Let_def)
  qed
  then show ?thesis
    using True by (simp add: getInvViewProjMat_def Let_def split_beta)
qed

lemma viewportToWorldPoint_fresh:
  assumes "\<not> isProjectionDirty c"
    and "lastAspectSize c = (canvas_width cv, canvas_height cv)"
    and IP: "mat_invert (vc_projectionMatrix (virtualCamera c)) = Some IP"
    and ip: "isInvProjMatDirty c \<or> inverseProjectionMatrix c = IP"
    and ivp: "isInvViewProjDirty c \<or> invViewProjMat c = mat_multiply (worldMatrix tf) IP"
  shows "fst (viewportToWorldPoint tf cv (px, py, pz) c) =
           transformCoordinate
             (px * 2 - 1, 1 - py * 2,
              ((if vc_isOrthographic (virtualCamera c)
                then - pz * 2 * (1 / (nearClipPlane c - farClipPlane c)) +
                     (farClipPlane c + nearClipPlane c) * (1 / (nearClipPlane c - farClipPlane c))
                else (- pz * (nearClipPlane c + farClipPlane c) *
                        (1 / (nearClipPlane c - farClipPlane c)) +
                      2 * nearClipPlane c * farClipPlane c *
                        (1 / (nearClipPlane c - farClipPlane c))) / pz) + 1) / 2 * 2 - 1)
             (mat_multiply (worldMatrix tf) IP)"
  using getInvViewProjMat_fresh[OF assms]
  by (simp add: viewportToWorldPoint_def innerViewportToWorldPoint_def get_isOrthographic_def
      Let_def split_beta)

lemma roundTrip_fresh:
  assumes auto: "\<not> isProjMatSetting c"
    and fresh: "cachesFresh tf cv c"
    and V: "mat_invert (rotationTranslation (worldRotationQuaternion tf) (worldPosition tf)) = Some V"
    and IP: "mat_invert (derivedProjection cv c) = Some IP"
    and clip: "transformToVec4 (transformCoordinate p V) (derivedProjection cv c) = (X, Y, Z, Wc)"
  shows "fst (roundTrip tf cv p c) =
     transformCoordinate
       ((X / Wc + 1) * 0.5 * 2 - 1, 1 - (1 - Y / Wc) * 0.5 * 2,
        ((if vc_isOrthographic (virtualCamera c)
          then - (- snd (snd (transformCoordinate p V))) * 2 * (1 / (nearClipPlane c - farClipPlane c)) +
               (farClipPlane c + nearClipPlane c) * (1 / (nearClipPlane c - farClipPlane c))
          else (- (- snd (snd (transformCoordinate p V))) * (nearClipPlane c + farClipPlane c) *
                  (1 / (nearClipPlane c - farClipPlane c)) +
                2 * nearClipPlane c * farClipPlane c * (1 / (nearClipPlane c - farClipPlane c))) /
               (- snd (snd (transformCoordinate p V)))) + 1) / 2 * 2 - 1)
       (mat_multiply (worldMatrix tf) IP)"
proof -
  let ?c2 = "c\<lparr> isViewMatrixDirty := False,
               isProjectionDirty := False,
               lastAspectSize := (canvas_width cv, canvas_height cv),
               virtualCamera := (virtualCamera c)\<lparr> vc_viewMatrix := V,
                  vc_projectionMatrix := derivedProjection cv c \<rparr> \<rparr>"
  note w = worldToViewportPoint_fresh[OF auto fresh V clip]
  have ip: "isInvProjMatDirty ?c2 \<or> inverseProjectionMatrix ?c2 = IP"
    using fresh IP by (auto simp add: cachesFresh_def)
  have ivp: "isInvViewProjDirty ?c2 \<or> invViewProjMat ?c2 = mat_multiply (worldMatrix tf) IP"
    using fresh IP by (auto simp add: cachesFresh_def)
  have v: "fst (viewportToWorldPoint tf cv (px, py, pz) ?c2) =
           transformCoordinate
             (px * 2 - 1, 1 - py * 2,
              ((if vc_isOrthographic (virtualCamera ?c2)
                then - pz * 2 * (1 / (nearClipPlane ?c2 - farClipPlane ?c2)) +
                     (farClipPlane ?c2 + nearClipPlane ?c2) * (1 / (nearClipPlane ?c2 - farClipPlane ?c2))
                else (- pz * (nearClipPlane ?c2 + farClipPlane ?c2) *
                        (1 / (nearClipPlane ?c2 - farClipPlane ?c2)) +
                      2 * nearClipPlane ?c2 * farClipPlane ?c2 *
                        (1 / (nearClipPlane ?c2 - farClipPlane ?c2))) / pz) + 1) / 2 * 2 - 1)
             (mat_multiply (worldMatrix tf) IP)" for px py pz
    using IP ip ivp by (intro viewportToWorldPoint_fresh) simp_all
  show ?thesis
    unfolding roundTrip_def w by (simp add: v)
qed

lemma all_dirty_fresh:
  "isViewMatrixDirty c \<Longrightarrow> isProjectionDirty c \<Longrightarrow> isInvProjMatDirty c \<Longrightarrow>
   isInvViewProjDirty c \<Longrightarrow> cachesFresh tf cv c"
  by (simp add: cachesFresh_def)

lemma derivedProjection_cong:
  assumes "vc_isOrthographic (virtualCamera c') = vc_isOrthographic (virtualCamera c)"
    and "fieldOfView c' = fieldOfView c" "nearClipPlane c' = nearClipPlane c"
    and "farClipPlane c' = farClipPlane c" "orthographicSize c' = orthographicSize c"
    and "customAspectRatio c' = customAspectRatio c" "viewport c' = viewport c"
  shows "derivedProjection cv c' = derivedProjection cv c"
  using assms by (simp add: derivedProjection_def get_aspectRatio_def split: option.splits)

lemma projMatChange_fresh:
  "cachesFresh tf cv c \<Longrightarrow> cachesFresh tf cv (projMatChange c)"
  by (simp add: cachesFresh_def projMatChange_def)

lemma setters_keep_fresh:
  assumes "cachesFresh tf cv c"
  shows "cachesFresh tf cv (set_nearClipPlane x c)"
    and "cachesFresh tf cv (set_farClipPlane x c)"
    and "cachesFresh tf cv (set_fieldOfView x c)"
    and "cachesFresh tf cv (set_orthographicSize x c)"
    and "cachesFresh tf cv (set_viewport v c)"
    and "cachesFresh tf cv (set_aspectRatio x c)"
    and "cachesFresh tf cv (set_isOrthographic b c)"
    and "cachesFresh tf cv (resetAspectRatio c)"
    and "cachesFresh tf cv (resetProjectionMatrix c)"
  using assms
  by (simp_all add: cachesFresh_def projMatChange_def set_nearClipPlane_def set_farClipPlane_def
      set_fieldOfView_def set_orthographicSize_def set_viewport_def set_aspectRatio_def
      set_isOrthographic_def resetAspectRatio_def resetProjectionMatrix_def)

lemma newCamera_fresh: "cachesFresh tf cv (newCamera mat_identity)"
  by (simp add: cachesFresh_def newCamera_def)

lemma cachesFresh_cong:
  assumes "derivedProjection cv c' = derivedProjection cv c"
    and "isViewMatrixDirty c' = isViewMatrixDirty c"
    and "vc_viewMatrix (virtualCamera c') = vc_viewMatrix (virtualCamera c)"
    and "isProjectionDirty c' \<or> lastAspectSize c' \<noteq> (canvas_width cv, canvas_height cv) \<or>
         vc_projectionMatrix (virtualCamera c') = derivedProjection cv c"
    and "isInvProjMatDirty c' \<or>
         mat_invert (derivedProjection cv c) = Some (inverseProjectionMatrix c')"
    and "isInvViewProjDirty c' \<or>
         (\<exists>ip. mat_invert (derivedProjection cv c) = Some ip \<and>
               invViewProjMat c' = mat_multiply (worldMatrix tf) ip)"
    and "cachesFresh tf cv c"
  shows "cachesFresh tf cv c'"
  using assms unfolding cachesFresh_def by (auto split: option.splits)

lemma worldToViewportPoint_keeps_fresh:
  assumes "\<not> isProjMatSetting c" "cachesFresh tf cv c"
    and "mat_invert (rotationTranslation (worldRotationQuaternion tf) (worldPosition tf)) \<noteq> None"
  shows "cachesFresh tf cv (snd (worldToViewportPoint tf cv p c))"
proof -
  obtain V where V: "mat_invert (rotationTranslation (worldRotationQuaternion tf)
      (worldPosition tf)) = Some V"
    using assms(3) by auto
  obtain X Y Z Wc where
    clip: "transformToVec4 (transformCoordinate p V) (derivedProjection cv c) = (X, Y, Z, Wc)"
    by (cases "transformToVec4 (transformCoordinate p V) (derivedProjection cv c)") auto
  let ?c2 = "c\<lparr> isViewMatrixDirty := False,
                 isProjectionDirty := False,
                 lastAspectSize := (canvas_width cv, canvas_height cv),
                 virtualCamera := (virtualCamera c)\<lparr> vc_viewMatrix := V,
                    vc_projectionMatrix := derivedProjection cv c \<rparr> \<rparr>"
  have d: "derivedProjection cv ?c2 = derivedProjection cv c"
    by (rule derivedProjection_cong) simp_all
  have "cachesFresh tf cv ?c2"
    using assms(2) V unfolding cachesFresh_def d by (auto split: option.splits)
  then show ?thesis
    by (simp add: worldToViewportPoint_fresh[OF assms(1,2) V clip])
qed

lemma getInvViewProjMat_keeps_fresh:
  assumes auto: "\<not> isProjMatSetting c" and fresh: "cachesFresh tf cv c"
    and IP: "mat_invert (derivedProjection cv c) = Some IP"
  shows "cachesFresh tf cv (snd (getInvViewProjMat tf cv c))"
proof (cases "isInvViewProjDirty c")
  case False
  then show ?thesis using fresh by (simp add: getInvViewProjMat_def)
next
  case ivp: True
  let ?c0 = "c\<lparr> isInvViewProjDirty := False \<rparr>"
  show ?thesis
  proof (cases "isInvProjMatDirty c")
    case False
    then have ip: "inverseProjectionMatrix c = IP"
      using fresh IP by (simp add: cachesFresh_def)
    let ?c3 = "?c0\<lparr> invViewProjMat := mat_multiply (worldMatrix tf) IP \<rparr>"
    have r: "snd (getInvViewProjMat tf cv c) = ?c3"
      using ivp False ip
      by (simp add: getInvViewProjMat_def getInverseProjectionMatrix_def Let_def)
    have d: "derivedProjection cv ?c3 = derivedProjection cv c"
      by (rule derivedProjection_cong) simp_all
    show ?thesis
      unfolding r using d _ _ _ _ _ fresh
      by (rule cachesFresh_cong) (use fresh IP False in \<open>auto simp add: cachesFresh_def\<close>)
  next
    case True
    let ?c1 = "c\<lparr> isInvViewProjDirty := False, isInvProjMatDirty := False \<rparr>"
    have d1: "derivedProjection cv ?c1 = derivedProjection cv c"
      by (rule derivedProjection_cong) simp_all
    have a: "\<not> isProjMatSetting ?c1"
      using auto by simp
    have h: "isProjectionDirty ?c1 \<or> lastAspectSize ?c1 \<noteq> (canvas_width cv, canvas_height cv) \<or>
             vc_projectionMatrix (virtualCamera ?c1) = derivedProjection cv ?c1"
      using fresh unfolding d1 by (auto simp add: cachesFresh_def)
    let ?c3 = "c\<lparr> isInvViewProjDirty := False, isInvProjMatDirty := False,
                   isProjectionDirty := False,
                   lastAspectSize := (canvas_width cv, canvas_height cv),
                   virtualCamera := (virtualCamera c)\<lparr> vc_projectionMatrix := derivedProjection cv c \<rparr>,
                   inverseProjectionMatrix := IP,
                   invViewProjMat := mat_multiply (worldMatrix tf) IP \<rparr>"
    have r: "snd (getInvViewProjMat tf cv c) = ?c3"
      using ivp True IP projectionMatrix_fresh[OF a h]
      by (simp add: getInvViewProjMat_def getInverseProjectionMatrix_def Let_def d1)
    have d: "derivedProjection cv ?c3 = derivedProjection cv c"
      by (rule derivedProjection_cong) simp_all
    show ?thesis
      unfolding r using d _ _ _ _ _ fresh
      by (rule cachesFresh_cong) (use fresh IP in \<open>auto simp add: cachesFresh_def\<close>)
  qed
qed

lemma viewportToWorldPoint_keeps_fresh:
  assumes "\<not> isProjMatSetting c" "cachesFresh tf cv c"
    and "mat_invert (derivedProjection cv c) \<noteq> None"
  shows "cachesFresh tf cv (snd (viewportToWorldPoint tf cv v c))"
proof -
  obtain IP where IP: "mat_invert (derivedProjection cv c) = Some IP"
    using assms(3) by auto
  show ?thesis
    using getInvViewProjMat_keeps_fresh[OF assms(1,2) IP]
    by (cases v) (simp add: viewportToWorldPoint_def Let_def split_beta)
qed

lemma roundTrip_keeps_fresh:
  assumes auto: "\<not> isProjMatSetting c" and fresh: "cachesFresh tf cv c"
    and "mat_invert (rotationTranslation (worldRotationQuaternion tf) (worldPosition tf)) \<noteq> None"
    and "mat_invert (derivedProjection cv c) \<noteq> None"
  shows "cachesFresh tf cv (snd (roundTrip tf cv p c))"
proof -
  obtain V where V: "mat_invert (rotationTranslation (worldRotationQuaternion tf)
      (worldPosition tf)) = Some V"
    using assms(3) by auto
  obtain X Y Z Wc where
    clip: "transformToVec4 (transformCoordinate p V) (derivedProjection cv c) = (X, Y, Z, Wc)"
    by (cases "transformToVec4 (transformCoordinate p V) (derivedProjection cv c)") auto
  let ?c2 = "c\<lparr> isViewMatrixDirty := False,
                 isProjectionDirty := False,
                 lastAspectSize := (canvas_width cv, canvas_height cv),
                 virtualCamera := (virtualCamera c)\<lparr> vc_viewMatrix := V,
                    vc_projectionMatrix := derivedProjection cv c \<rparr> \<rparr>"
  note w = worldToViewportPoint_fresh[OF auto fresh V clip]
  have d: "derivedProjection cv ?c2 = derivedProjection cv c"
    by (rule derivedProjection_cong) simp_all
  have f2: "cachesFresh tf cv ?c2"
    using worldToViewportPoint_keeps_fresh[OF auto fresh assms(3), of p] by (simp add: w)
  have a2: "\<not> isProjMatSetting ?c2"
    using auto by simp
  have i2: "mat_invert (derivedProjection cv ?c2) \<noteq> None"
    using assms(4) unfolding d .
  show ?thesis
    unfolding roundTrip_def w using viewportToWorldPoint_keeps_fresh[OF a2 f2 i2] by simp
qed

lemma ndc_x: "(x + 1) * 0.5 * 2 - 1 = (x::real)"
  by (simp add: field_simps)

lemma ndc_y: "1 - (1 - y) * 0.5 * 2 = (y::real)"
  by (simp add: field_simps)

lemma ndc_z: "(z + 1) / 2 * 2 - 1 = (z::real)"
  by (simp add: field_simps)

lemma tan_half_fov:
  assumes "0 < fov" "fov < 180"
  shows "tan (degreeToRadian fov / 2) \<noteq> 0"
proof -
  have "0 < degreeToRadian fov / 2" using assms(1) by (simp add: degreeToRadian_def)
  moreover have "degreeToRadian fov / 2 < pi / 2"
    using assms(2) by (simp add: degreeToRadian_def)
  ultimately have "0 < tan (degreeToRadian fov / 2)" by (rule tan_gt_zero)
  then show ?thesis by simp
qed

lemmas cam_eval =
  mat_identity_def mat_multiply_def mat_invert_def mat_det_def mat_apply_def
  transformToVec4_def transformCoordinate_def mat_perspective_def
  mat_ortho_def rotationTranslation_def get_viewMatrix_def
  projectionMatrix_def getInverseProjectionMatrix_def getInvViewProjMat_def
  innerViewportToWorldPoint_def worldToViewportPoint_def
  viewportToWorldPoint_def roundTrip_def get_projectionMatrix_def
  get_aspectRatio_def newCamera_def set_isOrthographic_def
  projMatChange_def get_isOrthographic_def set_projectionMatrix_def
  set_aspectRatio_def set_fieldOfView_def Let_def
  rest_transform_def turned_transform_def wide_canvas_def manual_matrix_def manual_camera_def

text \<open>
  C3 as stated fails. \<open>manual_camera\<close> has a projection matrix set by hand and the
  default clip planes 0.1 and 100. The point \<open>(0, 0, -3/2)\<close> lies in front of it between
  the two planes and is mapped to the centre of the viewport at depth 3/2, but
  \<open>viewportToWorldPoint\<close> maps that viewport point to \<open>(0, 0, -2997/1597)\<close>: it
  rebuilds the normalized depth from the near and far planes, which a matrix set by hand
  does not depend on.
\<close>

theorem manual_projection_breaks_round_trip:
  "nearClipPlane manual_camera < 3 / 2 \<and> 3 / 2 < farClipPlane manual_camera \<and>
   fst (worldToViewportPoint rest_transform wide_canvas (0, 0, - 3 / 2) manual_camera) =
     (1 / 2, 1 / 2, 3 / 2) \<and>
   fst (roundTrip rest_transform wide_canvas (0, 0, - 3 / 2) manual_camera) =
     (0, 0, - (2997 / 1597)) \<and>
   fst (roundTrip rest_transform wide_canvas (0, 0, - 3 / 2) manual_camera) \<noteq> (0, 0, - 3 / 2)"
  by (simp add: cam_eval)

text \<open>
  C3, amended. On a camera whose projection matrix is derived from its parameters (not
  set by hand) and whose caches are fresh (each cached matrix is marked dirty or holds
  what its recomputation would store, as on a new camera), with a transform without scale
  (its world matrix is the rotation and translation the view matrix is built from) that
  can be inverted, a nonzero aspect ratio, and a field of view strictly between 0 and 180
  degrees with a positive near plane (perspective) or a nonzero orthographic size
  (orthographic): for every world point whose depth in front of the camera is strictly
  between the near and far planes, \<open>viewportToWorldPoint\<close> applied to the result of
  \<open>worldToViewportPoint\<close> returns the point, exactly.
\<close>

theorem round_trip_with_derived_projection:
  assumes fresh: "cachesFresh tf cv c"
    and auto: "\<not> isProjMatSetting c"
    and unit: "worldMatrix tf =
                 rotationTranslation (worldRotationQuaternion tf) (worldPosition tf)"
    and inv: "mat_invert (worldMatrix tf) \<noteq> None"
    and aspect: "get_aspectRatio cv c \<noteq> 0"
    and shape: "if get_isOrthographic c then orthographicSize c \<noteq> 0
                else 0 < fieldOfView c \<and> fieldOfView c < 180 \<and> 0 < nearClipPlane c"
    and depth: "nearClipPlane c < snd (snd (fst (worldToViewportPoint tf cv p c))) \<and>
                snd (snd (fst (worldToViewportPoint tf cv p c))) < farClipPlane c"
  shows "fst (roundTrip tf cv p c) = p"
proof -
  let ?rt = "rotationTranslation (worldRotationQuaternion tf) (worldPosition tf)"
  let ?P = "derivedProjection cv c"
  let ?n = "nearClipPlane c" and ?f = "farClipPlane c"
  obtain V where V: "mat_invert ?rt = Some V" using inv unit by auto
  have aff_rt: "e3 ?rt = 0" "e7 ?rt = 0" "e11 ?rt = 0" "e15 ?rt = 1"
    by (cases "worldRotationQuaternion tf"; cases "worldPosition tf";
        simp add: rotationTranslation_def Let_def)+
  have aff: "e3 V = 0" "e7 V = 0" "e11 V = 0" "e15 V = 1"
    using affine_inverse[OF aff_rt V] by simp_all
  have "mat_multiply ?rt V = mat_identity"
    using affine_right_inverse[OF aff_rt V] .
  then have WV: "\<forall>v. mat_apply (worldMatrix tf) (mat_apply V v) = v"
    using unit by (metis mat_apply_multiply mat_apply_identity)
  obtain cx cy cz where cam: "transformCoordinate p V = (cx, cy, cz)"
    by (cases "transformCoordinate p V") auto
  obtain X Y Z Wc where clip: "transformToVec4 (transformCoordinate p V) ?P = (X, Y, Z, Wc)"
    by (cases "transformToVec4 (transformCoordinate p V) ?P") auto
  have dz: "snd (snd (fst (worldToViewportPoint tf cv p c))) = - cz"
    using worldToViewportPoint_fresh[OF auto fresh V clip] cam by simp
  have nd: "?n < - cz" "- cz < ?f" using depth dz by simp_all
  then have nf: "?n \<noteq> ?f" by simp
  show ?thesis
  proof (cases "vc_isOrthographic (virtualCamera c)")
    case True
    then have os: "orthographicSize c \<noteq> 0" using shape by (simp add: get_isOrthographic_def)
    have P: "?P = mat_ortho (- (orthographicSize c * get_aspectRatio cv c))
             (orthographicSize c * get_aspectRatio cv c)
             (- orthographicSize c) (orthographicSize c) ?n ?f"
      using True by (simp add: derivedProjection_def)
    obtain IP where IP: "mat_invert ?P = Some IP"
      and IPP: "\<forall>v. mat_apply IP (mat_apply ?P v) = v"
      unfolding P using ortho_inverse[of "- (orthographicSize c * get_aspectRatio cv c)"
          "orthographicSize c * get_aspectRatio cv c" "- orthographicSize c" "orthographicSize c"
          ?n ?f] os aspect nf
      by auto
    have c4: "Z = cz * (2 * (1 / (?n - ?f))) + (?f + ?n) * (1 / (?n - ?f))" "Wc = 1"
      using clip cam unfolding P by (simp_all add: transformToVec4_def ortho_clip)
    have "fst (roundTrip tf cv p c) =
          transformCoordinate (X / Wc, Y / Wc, Z / Wc) (mat_multiply (worldMatrix tf) IP)"
      apply (subst roundTrip_fresh[OF auto fresh V IP clip])
      apply (simp only: ndc_x ndc_y ndc_z)
      apply (rule arg_cong2[where f = transformCoordinate, OF _ refl])
      using True cam c4 apply (simp add: algebra_simps)
      done
    also have "\<dots> = p"
      using unproject_core[OF WV IPP aff clip] c4 by simp
    finally show ?thesis .
  next
    case False
    then have sh: "0 < fieldOfView c" "fieldOfView c < 180" "0 < ?n"
      using shape by (simp_all add: get_isOrthographic_def)
    have cz: "cz \<noteq> 0" "?f \<noteq> 0" using nd sh(3) by auto
    have P: "?P = mat_perspective (degreeToRadian (fieldOfView c)) (get_aspectRatio cv c) ?n ?f"
      using False by (simp add: derivedProjection_def)
    obtain IP where IP: "mat_invert ?P = Some IP"
      and IPP: "\<forall>v. mat_apply IP (mat_apply ?P v) = v"
      unfolding P using perspective_inverse[of "degreeToRadian (fieldOfView c)"
          "get_aspectRatio cv c" ?n ?f] tan_half_fov[OF sh(1,2)] aspect nf sh(3) cz(2)
      by auto
    have c4: "Z = cz * ((?f + ?n) * (1 / (?n - ?f))) + 2 * ?f * ?n * (1 / (?n - ?f))" "Wc = - cz"
      using clip cam unfolding P by (simp_all add: transformToVec4_def perspective_clip)
    have "fst (roundTrip tf cv p c) =
          transformCoordinate (X / Wc, Y / Wc, Z / Wc) (mat_multiply (worldMatrix tf) IP)"
      apply (subst roundTrip_fresh[OF auto fresh V IP clip])
      apply (simp only: ndc_x ndc_y ndc_z)
      apply (rule arg_cong2[where f = transformCoordinate, OF _ refl])
      using False cam c4 apply (simp add: algebra_simps add_divide_distrib)
      done
    also have "\<dots> = p"
      using unproject_core[OF WV IPP aff clip] c4 cz by simp
    finally show ?thesis .
  qed
qed

text \<open>
  The amended law on a new camera, with the default perspective projection, seen through
  the turned transform.
\<close>

theorem round_trip_with_derived_projection_witness:
  "fst (roundTrip turned_transform wide_canvas (1, 2, 15) (newCamera mat_identity)) = (1, 2, 15)"
proof (rule round_trip_with_derived_projection)
  let ?c = "newCamera mat_identity :: matrix camera"
  show "cachesFresh turned_transform wide_canvas ?c"
    by (simp add: cachesFresh_def newCamera_def)
  show "\<not> isProjMatSetting ?c"
    by (simp add: newCamera_def)
  show "worldMatrix turned_transform =
          rotationTranslation (worldRotationQuaternion turned_transform)
            (worldPosition turned_transform)"
    by (simp add: turned_transform_def)
  show "mat_invert (worldMatrix turned_transform) \<noteq> None"
    by (simp add: turned_transform_def rotationTranslation_def mat_invert_def mat_det_def Let_def)
  show "get_aspectRatio wide_canvas ?c \<noteq> 0"
    by (simp add: get_aspectRatio_def newCamera_def wide_canvas_def)
  show "if get_isOrthographic ?c then orthographicSize ?c \<noteq> 0
        else 0 < fieldOfView ?c \<and> fieldOfView ?c < 180 \<and> 0 < nearClipPlane ?c"
    by (simp add: get_isOrthographic_def newCamera_def)
  show "nearClipPlane ?c <
          snd (snd (fst (worldToViewportPoint turned_transform wide_canvas (1, 2, 15) ?c))) \<and>
        snd (snd (fst (worldToViewportPoint turned_transform wide_canvas (1, 2, 15) ?c))) <
          farClipPlane ?c"
    by (simp add: worldToViewportPoint_def get_viewMatrix_def newCamera_def turned_transform_def
        rotationTranslation_def mat_invert_def mat_det_def transformCoordinate_def
        transformToVec4_def mat_apply_def Let_def split_beta)
qed

section \<open>Properties of the text renderer\<close>

lemma render_AB_pushes_one_element:
  "render per_char_layout (renderer_AB, []) =
     (renderer_AB\<lparr> tr_subFont := Some (), tr_charRenderDatas := ''AB'',
                   tr_dirtyFlag := WorldBounds_bit \<rparr>,
      [TextElement ''AB''])"
  by (simp add: render_def renderer_AB_def newTextRenderer_def per_char_layout_def
      isContainDirtyFlag_def setDirtyFlagFalse_def resetSubFont_def Font_bits_def
      Position_bits_def SubFont_bit_def LocalPositionBounds_bit_def WorldPosition_bit_def
      WorldBounds_bit_def MaskInteraction_bit_def Let_def)

text \<open>
  C8. When the text is empty, or wrapping is enabled and the width is not positive, or
  the overflow mode is \<open>Truncate\<close> and the height is not positive, \<open>_render\<close> returns
  at once: nothing is pushed to the render pipeline, and the renderer, its dirty flags
  included, is what it was.
\<close>

theorem render_returns_early:
  "tr_text r = [] \<or> (tr_enableWrapping r \<and> tr_width r \<le> 0) \<or>
     (tr_overflowMode r = Truncate \<and> tr_height r \<le> 0) \<Longrightarrow>
   render ext (r, queue) = (r, queue)"
  by (simp add: render_def)

theorem render_returns_early_witness:
  "render per_char_layout (renderer_AB\<lparr> tr_text := [] \<rparr>, []) =
     (renderer_AB\<lparr> tr_text := [] \<rparr>, []) \<and>
   tr_width (renderer_AB\<lparr> tr_enableWrapping := True \<rparr>) \<le> 0 \<and>
   render per_char_layout (renderer_AB\<lparr> tr_enableWrapping := True \<rparr>, []) =
     (renderer_AB\<lparr> tr_enableWrapping := True \<rparr>, []) \<and>
   tr_height (renderer_AB\<lparr> tr_overflowMode := Truncate, tr_height := - 1 \<rparr>) \<le> 0 \<and>
   render per_char_layout
       (renderer_AB\<lparr> tr_overflowMode := Truncate, tr_height := - 1 \<rparr>, []) =
     (renderer_AB\<lparr> tr_overflowMode := Truncate, tr_height := - 1 \<rparr>, [])"
  using render_returns_early [of "renderer_AB\<lparr> tr_text := [] \<rparr>" per_char_layout "[]"]
    render_returns_early [of "renderer_AB\<lparr> tr_enableWrapping := True \<rparr>" per_char_layout "[]"]
    render_returns_early
      [of "renderer_AB\<lparr> tr_overflowMode := Truncate, tr_height := - 1 \<rparr>" per_char_layout "[]"]
  by (simp add: renderer_AB_def newTextRenderer_def)

text \<open>
  C10. Assigning \<open>null\<close> or \<open>undefined\<close> to \<open>text\<close> stores the empty string. Assigning
  to \<open>text\<close>, \<open>width\<close>, \<open>height\<close>, \<open>fontSize\<close>, \<open>fontStyle\<close>, \<open>lineSpacing\<close>,
  \<open>horizontalAlignment\<close>, \<open>verticalAlignment\<close>, \<open>enableWrapping\<close>, \<open>overflowMode\<close>
  or \<open>maskInteraction\<close> the value already stored leaves the whole renderer as it was:
  the field, every other field, and every bit of the dirty-flag word.
\<close>

theorem setters_ignore_equal_values:
  "tr_text (set_text None r) = [] \<and>
   set_text (Some (tr_text r)) r = r \<and>
   set_width (tr_width r) r = r \<and>
   set_height (tr_height r) r = r \<and>
   set_fontSize (tr_fontSize r) r = r \<and>
   set_fontStyle (tr_fontStyle r) r = r \<and>
   set_lineSpacing (tr_lineSpacing r) r = r \<and>
   set_horizontalAlignment (tr_horizontalAlignment r) r = r \<and>
   set_verticalAlignment (tr_verticalAlignment r) r = r \<and>
   set_enableWrapping (tr_enableWrapping r) r = r \<and>
   set_overflowMode (tr_overflowMode r) r = r \<and>
   set_maskInteraction (tr_maskInteraction r) r = r"
  by (simp add: set_text_def set_width_def set_height_def set_fontSize_def set_fontStyle_def
      set_lineSpacing_def set_horizontalAlignment_def set_verticalAlignment_def
      set_enableWrapping_def set_overflowMode_def set_maskInteraction_def
      setDirtyFlagTrue_def)

section \<open>Properties of the glyph atlas\<close>

lemma upload_cursor:
  assumes "cursor_inv sf" "uploadCharTexture pk ci sf = Some (ci1, sf1)"
  shows "sf_lastIndex sf1 = int (length (sf_fontAtlases sf1)) - 1 \<and> sf_fontAtlases sf1 \<noteq> []"
  using assms
  by (auto simp add: cursor_inv_def uploadCharTexture_def createFontAtlas_def Let_def
      split: if_splits prod.splits)

lemma add_cursor:
  assumes "cursor_inv sf" "addCharInfo c ci sf = Some (ci1, sf1)"
  shows "cursor_inv sf1"
  using assms by (auto simp add: cursor_inv_def addCharInfo_def Let_def split: if_splits)

lemma reachable_cursor_inv: "reachable pk sf \<Longrightarrow> cursor_inv sf"
proof (induction rule: reachable.induct)
  case (reach_new ids)
  then show ?case by (simp add: cursor_inv_def newSubFont_def)
next
  case (reach_upload sf ci ci1 sf1)
  then show ?case using upload_cursor[of sf pk ci ci1 sf1] by (simp add: cursor_inv_def)
next
  case (reach_add sf c ci ci1 sf1)
  then show ?case using add_cursor by blast
next
  case (reach_destroy sf)
  then show ?case by (simp add: cursor_inv_def destroy_def)
qed

lemma scanPages_found:
  "scanPages c pages \<noteq> None \<longleftrightarrow> (\<exists>a \<in> set pages. fa_getCharInfo c a \<noteq> None)"
  by (induction pages) (auto split: option.splits)

lemma getCharInfo_found:
  "getCharInfo c sf \<noteq> None \<longleftrightarrow>
     (\<exists>k < length (sf_fontAtlases sf). fa_getCharInfo c (sf_fontAtlases sf ! k) \<noteq> None)"
  unfolding getCharInfo_def scanPages_found by (metis in_set_conv_nth)

lemma upload_pages:
  assumes "cursor_inv sf" "uploadCharTexture pk ci sf = Some (ci1, sf1)"
  shows "length (sf_fontAtlases sf) \<le> length (sf_fontAtlases sf1)"
    and "\<forall>k < length (sf_fontAtlases sf).
           fa_texture (sf_fontAtlases sf1 ! k) = fa_texture (sf_fontAtlases sf ! k) \<and>
           fa_charInfoMap (sf_fontAtlases sf1 ! k) = fa_charInfoMap (sf_fontAtlases sf ! k)"
    and "\<forall>k < length (sf_fontAtlases sf1). int k \<noteq> sf_lastIndex sf1 \<longrightarrow>
           fa_glyphs (sf_fontAtlases sf1 ! k) =
             (if k < length (sf_fontAtlases sf) then fa_glyphs (sf_fontAtlases sf ! k) else [])"
  using assms
  by (auto simp add: cursor_inv_def uploadCharTexture_def createFontAtlas_def Let_def
      fa_uploadCharTexture_def nth_list_update nth_append nth_Cons' less_Suc_eq
      split: if_splits prod.splits)

lemma add_after_upload:
  assumes "sf_lastIndex sf1 = int (length (sf_fontAtlases sf1)) - 1" "sf_fontAtlases sf1 \<noteq> []"
  shows "\<exists>ci2 sf2. addCharInfo c ci1 sf1 = Some (ci2, sf2) \<and>
           ci_index ci2 = sf_lastIndex sf1 \<and>
           getCharInfo c sf2 \<noteq> None \<and>
           getTextureByIndex (ci_index ci2) sf2 = Some (fa_texture (last (sf_fontAtlases sf1)))"
proof -
  let ?n = "length (sf_fontAtlases sf1)"
  have n: "0 < ?n" using assms(2) by simp
  have idx: "nat (sf_lastIndex sf1) = ?n - 1" using assms(1) n by simp
  have "fa_getCharInfo c
          ((sf_fontAtlases sf1)
             [?n - 1 := fa_addCharInfo c (ci1\<lparr>ci_index := sf_lastIndex sf1\<rparr>)
                          (sf_fontAtlases sf1 ! (?n - 1))] ! (?n - 1)) \<noteq> None"
    using n by (simp add: fa_getCharInfo_def fa_addCharInfo_def)
  then have "getCharInfo c
      (sf1\<lparr>sf_fontAtlases := (sf_fontAtlases sf1)
             [?n - 1 := fa_addCharInfo c (ci1\<lparr>ci_index := sf_lastIndex sf1\<rparr>)
                          (sf_fontAtlases sf1 ! (?n - 1))]\<rparr>) \<noteq> None"
    unfolding getCharInfo_found using n by (intro exI[of _ "?n - 1"]) simp
  then show ?thesis
    using assms n idx
    by (simp add: addCharInfo_def Let_def getTextureByIndex_def last_conv_nth
        fa_addCharInfo_def)
qed

text \<open>
  C9. In every reachable state, a call of \<open>_uploadCharTexture\<close> that returns leaves the
  cursor on the last page: \<open>_lastIndex\<close> is the number of pages minus one. The pages
  there were before are still there, with their textures and recorded glyphs, so pages are
  only appended; no page but the cursor page has taken a glyph. A following
  \<open>_addCharInfo\<close> succeeds, stamps the \<open>CharInfo\<close> with the cursor, makes the
  character found by \<open>_getCharInfo\<close>, and \<open>_getTextureByIndex\<close> at the stamped
  index returns the texture of the last page, the one the upload went to.
\<close>

theorem upload_leaves_cursor_on_last_page:
  assumes "reachable pk sf" and "uploadCharTexture pk ci sf = Some (ci1, sf1)"
  shows "sf_lastIndex sf1 = int (length (sf_fontAtlases sf1)) - 1 \<and>
         length (sf_fontAtlases sf) \<le> length (sf_fontAtlases sf1) \<and>
         (\<forall>k < length (sf_fontAtlases sf).
            fa_texture (sf_fontAtlases sf1 ! k) = fa_texture (sf_fontAtlases sf ! k) \<and>
            fa_charInfoMap (sf_fontAtlases sf1 ! k) = fa_charInfoMap (sf_fontAtlases sf ! k)) \<and>
         (\<forall>k < length (sf_fontAtlases sf1). int k \<noteq> sf_lastIndex sf1 \<longrightarrow>
            fa_glyphs (sf_fontAtlases sf1 ! k) =
              (if k < length (sf_fontAtlases sf) then fa_glyphs (sf_fontAtlases sf ! k)
               else [])) \<and>
         (\<forall>c. \<exists>ci2 sf2. addCharInfo c ci1 sf1 = Some (ci2, sf2) \<and>
            ci_index ci2 = sf_lastIndex sf1 \<and>
            getCharInfo c sf2 \<noteq> None \<and>
            getTextureByIndex (ci_index ci2) sf2 =
              Some (fa_texture (last (sf_fontAtlases sf1))))"
proof -
  have inv: "cursor_inv sf" using assms(1) by (rule reachable_cursor_inv)
  have cur: "sf_lastIndex sf1 = int (length (sf_fontAtlases sf1)) - 1"
    and ne: "sf_fontAtlases sf1 \<noteq> []"
    using upload_cursor[OF inv assms(2)] by simp_all
  show ?thesis
    using cur upload_pages[OF inv assms(2)] add_after_upload[OF cur ne]
    by blast
qed

lemma map_tex_update:
  "k < length xs \<Longrightarrow> fa_texture a = fa_texture (xs ! k) \<Longrightarrow>
   map (\<lambda>a. tex_instanceId (fa_texture a)) (xs[k := a]) =
   map (\<lambda>a. tex_instanceId (fa_texture a)) xs"
  by (simp add: list_eq_iff_nth_eq nth_list_update)

lemma ids_update:
  assumes "ids_inv sf" "k < length (sf_fontAtlases sf)"
    "fa_texture a = fa_texture (sf_fontAtlases sf ! k)"
  shows "ids_inv (sf\<lparr>sf_fontAtlases := (sf_fontAtlases sf)[k := a]\<rparr>)"
proof -
  have "\<forall>b \<in> set ((sf_fontAtlases sf)[k := a]).
          tex_instanceId (fa_texture b) \<le> sf_instanceIds sf"
  proof
    fix b assume "b \<in> set ((sf_fontAtlases sf)[k := a])"
    then have "b = a \<or> b \<in> set (sf_fontAtlases sf)"
      using set_update_subset_insert[of "sf_fontAtlases sf" k a] by auto
    moreover have "sf_fontAtlases sf ! k \<in> set (sf_fontAtlases sf)"
      using assms(2) by simp
    ultimately show "tex_instanceId (fa_texture b) \<le> sf_instanceIds sf"
      using assms(1,3) by (auto simp add: ids_inv_def)
  qed
  then show ?thesis
    using assms by (simp add: ids_inv_def map_tex_update)
qed

lemma ids_create:
  assumes "ids_inv sf" "createFontAtlas pk sf = (a, sf')"
  shows "ids_inv sf'" and "sf_fontAtlases sf' = sf_fontAtlases sf @ [a]"
    and "sf_lastIndex sf' = sf_lastIndex sf"
proof -
  have fresh: "Suc (sf_instanceIds sf) \<notin>
      (\<lambda>a. tex_instanceId (fa_texture a)) ` set (sf_fontAtlases sf)"
  proof
    assume "Suc (sf_instanceIds sf) \<in> (\<lambda>a. tex_instanceId (fa_texture a)) ` set (sf_fontAtlases sf)"
    then obtain b where "b \<in> set (sf_fontAtlases sf)"
      "tex_instanceId (fa_texture b) = Suc (sf_instanceIds sf)" by auto
    then show False using assms(1) by (fastforce simp add: ids_inv_def)
  qed
  have le: "\<forall>b \<in> set (sf_fontAtlases sf). tex_instanceId (fa_texture b) \<le> Suc (sf_instanceIds sf)"
    using assms(1) by (fastforce simp add: ids_inv_def)
  show "ids_inv sf'"
    using assms fresh le by (auto simp add: ids_inv_def createFontAtlas_def Let_def)
  show "sf_fontAtlases sf' = sf_fontAtlases sf @ [a]"
    using assms(2) by (auto simp add: createFontAtlas_def Let_def)
  show "sf_lastIndex sf' = sf_lastIndex sf"
    using assms(2) by (auto simp add: createFontAtlas_def Let_def)
qed

lemma fa_upload_texture: "fa_texture (snd (fa_uploadCharTexture pk ci a)) = fa_texture a"
  by (simp add: fa_uploadCharTexture_def split: prod.splits)

lemma ids_lastIndex: "ids_inv (sf\<lparr>sf_lastIndex := i\<rparr>) = ids_inv sf"
  by (simp add: ids_inv_def)

lemma upload_ids:
  assumes inv: "ids_inv sf" and up: "uploadCharTexture pk ci sf = Some (ci1, sf1)"
  shows "ids_inv sf1"
proof -
  define sfa where "sfa = (if sf_lastIndex sf = - 1 then snd (createFontAtlas pk sf) else sf)"
  define li where "li = (if sf_lastIndex sf = - 1 then sf_lastIndex sf + 1 else sf_lastIndex sf)"
  have inva: "ids_inv sfa"
    using inv ids_create(1)[of sf pk "fst (createFontAtlas pk sf)" "snd (createFontAtlas pk sf)"]
    by (simp add: sfa_def)
  have rng: "0 \<le> li \<and> li < int (length (sf_fontAtlases sfa))"
    using up by (auto simp add: uploadCharTexture_def sfa_def li_def Let_def split: if_splits)
  define k where "k = nat li"
  have k: "k < length (sf_fontAtlases sfa)" using rng by (simp add: k_def nat_less_iff)
  define r where "r = fa_uploadCharTexture pk ci (sf_fontAtlases sfa ! k)"
  define sf2 where "sf2 = sfa\<lparr>sf_fontAtlases := (sf_fontAtlases sfa)[k := snd r]\<rparr>"
  have inv2: "ids_inv sf2"
    unfolding sf2_def r_def using inva k by (intro ids_update) (simp_all add: fa_upload_texture)
  show ?thesis
  proof (cases "fst r")
    case True
    then have "sf1 = sf2\<lparr>sf_lastIndex := li\<rparr>"
      using up rng
      by (auto simp add: uploadCharTexture_def sfa_def li_def k_def r_def sf2_def Let_def
          split: if_splits prod.splits)
    then show ?thesis using inv2 by (simp add: ids_lastIndex)
  next
    case False
    obtain fa sf3 where c: "createFontAtlas pk sf2 = (fa, sf3)" by (cases "createFontAtlas pk sf2")
    have inv3: "ids_inv sf3" and at3: "sf_fontAtlases sf3 = sf_fontAtlases sf2 @ [fa]"
      using ids_create[OF inv2 c] by simp_all
    define sf4 where "sf4 = sf3\<lparr>sf_fontAtlases :=
       (sf_fontAtlases sf3)[length (sf_fontAtlases sf3) - 1 := snd (fa_uploadCharTexture pk ci fa)]\<rparr>"
    have inv4: "ids_inv sf4"
      unfolding sf4_def using inv3 at3 by (intro ids_update) (simp_all add: fa_upload_texture)
    have "sf1 = sf4\<lparr>sf_lastIndex := li + 1\<rparr>"
      using up rng False c
      by (auto simp add: uploadCharTexture_def sfa_def li_def k_def r_def sf2_def sf4_def Let_def
          split: if_splits prod.splits)
    then show ?thesis using inv4 by (simp add: ids_lastIndex)
  qed
qed

lemma add_ids:
  assumes "ids_inv sf" "addCharInfo c ci sf = Some (ci1, sf1)"
  shows "ids_inv sf1"
proof -
  have rng: "0 \<le> sf_lastIndex sf \<and> sf_lastIndex sf < int (length (sf_fontAtlases sf))"
    using assms(2) by (auto simp add: addCharInfo_def Let_def split: if_splits)
  have "sf1 = sf\<lparr>sf_fontAtlases := (sf_fontAtlases sf)[nat (sf_lastIndex sf) :=
      fa_addCharInfo c (ci\<lparr>ci_index := sf_lastIndex sf\<rparr>)
        (sf_fontAtlases sf ! nat (sf_lastIndex sf))]\<rparr>"
    using assms(2) rng by (auto simp add: addCharInfo_def Let_def split: if_splits)
  moreover have "nat (sf_lastIndex sf) < length (sf_fontAtlases sf)"
    using rng by (simp add: nat_less_iff)
  ultimately show ?thesis
    using assms(1) by (simp only:) (rule ids_update, simp_all add: fa_addCharInfo_def)
qed

lemma reachable_ids_inv: "reachable pk sf \<Longrightarrow> ids_inv sf"
proof (induction rule: reachable.induct)
  case (reach_new ids)
  then show ?case by (simp add: ids_inv_def newSubFont_def)
next
  case (reach_upload sf ci ci1 sf1)
  then show ?case using upload_ids by blast
next
  case (reach_add sf c ci ci1 sf1)
  then show ?case using add_ids by blast
next
  case (reach_destroy sf)
  then show ?case by (simp add: ids_inv_def destroy_def)
qed

text \<open>The texture identifies the page: two pages of a reachable font never share one.\<close>

lemma pages_have_distinct_textures:
  assumes "reachable pk sf" "j < length (sf_fontAtlases sf)" "k < length (sf_fontAtlases sf)"
    "fa_texture (sf_fontAtlases sf ! j) = fa_texture (sf_fontAtlases sf ! k)"
  shows "j = k"
proof -
  have "distinct (map (\<lambda>a. tex_instanceId (fa_texture a)) (sf_fontAtlases sf))"
    using reachable_ids_inv[OF assms(1)] by (simp add: ids_inv_def)
  then show ?thesis
    using assms(2-4) by (auto simp add: distinct_conv_nth) metis
qed








lemmas sf_eval = placeGlyph_def uploadCharTexture_def addCharInfo_def createFontAtlas_def
  fa_uploadCharTexture_def fa_addCharInfo_def fa_getCharInfo_def newSubFont_def row_packer_def
  glyph_def getCharInfo_def getTextureByIndex_def cursorPageRefuses_def Let_def


lemma font_a_eq:
  "font_a = \<lparr> sf_fontAtlases =
      [\<lparr> fa_texture = \<lparr> tex_width = 256, tex_height = 256, tex_instanceId = 1 \<rparr>,
         fa_charInfoMap = [(''a'', \<lparr> ci_index = 0, ci_data = None, ci_w = 200, ci_h = 20 \<rparr>)],
         fa_packing = 200,
         fa_glyphs = [glyph 200] \<rparr>], sf_lastIndex = 0, sf_instanceIds = 1 \<rparr>"
  by (simp add: font_a_def sf_eval)

lemma placeGlyph_reachable:
  assumes "reachable pk sf" "placeGlyph pk g sf = Some sf1"
  shows "reachable pk sf1"
proof -
  obtain ci1 sfa where up: "uploadCharTexture pk (snd g) sf = Some (ci1, sfa)"
    using assms(2) by (auto simp add: placeGlyph_def split: option.splits)
  then obtain ci2 where ad: "addCharInfo (fst g) ci1 sfa = Some (ci2, sf1)"
    using assms(2) by (auto simp add: placeGlyph_def)
  show ?thesis
    using reach_add[OF reach_upload[OF assms(1) up] ad] .
qed

lemma font_a_reachable: "reachable row_packer font_a"
proof -
  have "placeGlyph row_packer (''a'', glyph 200) (newSubFont 0) = Some font_a"
    by (simp add: font_a_def sf_eval)
  then show ?thesis using placeGlyph_reachable[OF reach_new] by blast
qed

theorem upload_leaves_cursor_on_last_page_witness:
  "reachable row_packer font_a \<and>
   (case uploadCharTexture row_packer (glyph 100) font_a of
      None \<Rightarrow> False
    | Some (ci1, sf1) \<Rightarrow>
        sf_lastIndex sf1 = 1 \<and> length (sf_fontAtlases sf1) = 2 \<and>
        map fa_glyphs (sf_fontAtlases sf1) = [[glyph 200], [glyph 100]] \<and>
        (case addCharInfo ''b'' ci1 sf1 of
           None \<Rightarrow> False
         | Some (ci2, sf2) \<Rightarrow>
             ci_index ci2 = 1 \<and>
             getTextureByIndex (ci_index ci2) sf2 =
               Some \<lparr> tex_width = 256, tex_height = 256, tex_instanceId = 2 \<rparr>))"
  using font_a_reachable
    upload_leaves_cursor_on_last_page [OF font_a_reachable,
      of "glyph 100" "fst (the (uploadCharTexture row_packer (glyph 100) font_a))"
         "snd (the (uploadCharTexture row_packer (glyph 100) font_a))"]
  by (simp add: font_a_eq sf_eval)

section \<open>Properties of the sort\<close>

lemma insertFromBack_Nil [simp]: "insertFromBack c x [] = [x]"
  by (simp add: insertFromBack.simps)

lemma insertFromBack_snoc [simp]:
  "insertFromBack c x (ys @ [y]) = (if c y x > 0 then insertFromBack c x ys @ [y] else ys @ [y, x])"
  by (simp add: insertFromBack.simps[of c x "ys @ [y]"])

lemma length_insertFromBack [simp]: "length (insertFromBack c x ys) = Suc (length ys)"
  by (induction ys rule: rev_induct) simp_all

lemma insertionLoop_step:
  "from < j1 \<Longrightarrow> c (a ! (j1 - 1)) x > 0 \<Longrightarrow>
   insertionLoop c x from a j1 = insertionLoop c x from (a[j1 := a ! (j1 - 1)]) (j1 - 1)"
  by (subst insertionLoop.simps) (simp add: Let_def)

lemma insertionLoop_stop:
  "\<not> (from < j1 \<and> c (a ! (j1 - 1)) x > 0) \<Longrightarrow> insertionLoop c x from a j1 = (a, j1)"
  by (subst insertionLoop.simps) (auto simp add: Let_def)

lemma insertionSortFrom_step:
  "i < to \<Longrightarrow> insertionLoop c (a ! i) from a i = (a1, j1) \<Longrightarrow>
   insertionSortFrom c from to a i = insertionSortFrom c from to (a1[j1 := a ! i]) (i + 1)"
  by (subst insertionSortFrom.simps) (simp add: Let_def)

lemma insertionSortFrom_stop:
  "\<not> i < to \<Longrightarrow> insertionSortFrom c from to a i = a"
  by (subst insertionSortFrom.simps) simp

lemma insertionLoop_refines:
  "length pre = from \<Longrightarrow> j1 = from + length S1 \<Longrightarrow>
   insertionLoop c x from (pre @ S1 @ h # S2) j1 = (a', j') \<Longrightarrow>
   a'[j' := x] = pre @ insertFromBack c x S1 @ S2"
proof (induction S1 arbitrary: h S2 j1 a' j' rule: rev_induct)
  case Nil
  then have "insertionLoop c x from (pre @ [] @ h # S2) j1 = (pre @ [] @ h # S2, j1)"
    by (intro insertionLoop_stop) simp
  with Nil show ?case by (simp add: list_update_append)
next
  case (snoc y T)
  let ?a = "pre @ (T @ [y]) @ h # S2"
  have j1: "from < j1" "j1 - 1 = from + length T" using snoc.prems(2) by simp_all
  have rd: "?a ! (j1 - 1) = y"
    using snoc.prems(1) j1 by (simp add: nth_append)
  show ?case
  proof (cases "c y x > 0")
    case True
    have upd: "?a[j1 := y] = pre @ T @ y # (y # S2)"
      using snoc.prems(1,2) by (simp add: list_update_append)
    have "insertionLoop c x from ?a j1 = insertionLoop c x from (?a[j1 := ?a ! (j1 - 1)]) (j1 - 1)"
      using j1(1) True rd by (intro insertionLoop_step) simp_all
    then have "insertionLoop c x from (pre @ T @ y # (y # S2)) (j1 - 1) = (a', j')"
      using snoc.prems(3) by (simp only: rd upd)
    from snoc.IH[OF snoc.prems(1) j1(2) this] True show ?thesis by simp
  next
    case False
    have "insertionLoop c x from ?a j1 = (?a, j1)"
      using False rd by (intro insertionLoop_stop) simp
    then have "a' = ?a" "j' = j1"
      using snoc.prems(3) by simp_all
    then show ?thesis using False snoc.prems(1,2) by (simp add: list_update_append)
  qed
qed

lemma insertionSortFrom_refines:
  "length pre = from \<Longrightarrow> i = from + length S \<Longrightarrow> to = i + length R1 \<Longrightarrow>
   insertionSortFrom c from to (pre @ S @ R1 @ R2) i =
     pre @ foldl (\<lambda>acc x. insertFromBack c x acc) S R1 @ R2"
proof (induction R1 arbitrary: S i)
  case Nil
  then show ?case by (simp add: insertionSortFrom_stop)
next
  case (Cons x R1)
  let ?a = "pre @ S @ (x # R1) @ R2"
  have lt: "i < to" using Cons.prems by simp
  have rd: "?a ! i = x"
    using Cons.prems by (simp add: nth_append)
  obtain a1 j1 where il: "insertionLoop c x from ?a i = (a1, j1)"
    by (cases "insertionLoop c x from ?a i")
  have "insertionLoop c x from (pre @ S @ x # (R1 @ R2)) i = (a1, j1)"
    using il by simp
  from insertionLoop_refines[OF Cons.prems(1,2) this]
  have st: "a1[j1 := x] = pre @ insertFromBack c x S @ R1 @ R2" .
  have "insertionSortFrom c from to ?a i =
        insertionSortFrom c from to (a1[j1 := ?a ! i]) (i + 1)"
    using lt il rd by (intro insertionSortFrom_step) simp_all
  also have "\<dots> = insertionSortFrom c from to (pre @ insertFromBack c x S @ R1 @ R2) (i + 1)"
    by (simp only: rd st)
  also have "\<dots> = pre @ foldl (\<lambda>acc x. insertFromBack c x acc) (insertFromBack c x S) R1 @ R2"
    using Cons.prems by (intro Cons.IH) simp_all
  finally show ?case by simp
qed

lemma segment_split:
  assumes "from \<le> to" "to \<le> length a"
  shows "a = take from a @ segment a from to @ drop to a"
proof -
  have d: "drop (to - from) (drop from a) = drop to a"
    using assms(1) by simp
  have "drop from a = segment a from to @ drop to a"
    unfolding segment_def by (metis append_take_drop_id d)
  then show ?thesis by (metis append_take_drop_id)
qed

lemma segment_Cons:
  assumes "from < to" "to \<le> length a"
  shows "segment a from to = a ! from # segment a (Suc from) to"
proof -
  have "drop from a = a ! from # drop (Suc from) a"
    using assms by (simp add: Cons_nth_drop_Suc)
  moreover have "to - from = Suc (to - Suc from)" using assms by simp
  ultimately show ?thesis by (simp add: segment_def)
qed

lemma insertionSort_refines:
  assumes "from \<le> to" "to \<le> length a"
  shows "insertionSort c a from to =
           take from a @ plainInsertionSort c (segment a from to) @ drop to a"
proof (cases "from = to")
  case True
  then show ?thesis
    by (simp add: insertionSort_def insertionSortFrom_stop segment_def plainInsertionSort_def)
next
  case False
  then have lt: "from < to" using assms by simp
  note sl = segment_Cons[OF lt assms(2)]
  have a: "a = take from a @ [a ! from] @ segment a (Suc from) to @ drop to a"
    using segment_split[OF assms] sl by simp
  have len: "length (segment a (Suc from) to) = to - Suc from"
    using assms lt by (simp add: segment_def)
  have "insertionSortFrom c from to
          (take from a @ [a ! from] @ segment a (Suc from) to @ drop to a) (from + 1) =
        take from a @ foldl (\<lambda>acc x. insertFromBack c x acc) [a ! from] (segment a (Suc from) to) @
          drop to a"
    using lt assms len by (intro insertionSortFrom_refines) simp_all
  then have "insertionSortFrom c from to a (from + 1) =
        take from a @ foldl (\<lambda>acc x. insertFromBack c x acc) [a ! from] (segment a (Suc from) to) @
          drop to a"
    using a by simp
  then show ?thesis
    using sl by (simp add: insertionSort_def plainInsertionSort_def)
qed

lemma orders_byD:
  assumes "orders_by c key"
  shows "(c x y < 0) = (key x < key y)" "(0 < c x y) = (key y < key x)"
    "(c x y = 0) = (key x = key y)" "(c x y \<le> 0) = (key x \<le> key y)"
    "(0 \<le> c x y) = (key y \<le> key x)"
proof -
  show a: "(c x y < 0) = (key x < key y)" and b: "(0 < c x y) = (key y < key x)"
    using assms by (simp_all add: orders_by_def)
  show "(c x y = 0) = (key x = key y)" using a b by (metis less_irrefl linorder_neqE_linordered_idom linorder_less_linear)
  show "(c x y \<le> 0) = (key x \<le> key y)" using b by (metis not_less)
  show "(0 \<le> c x y) = (key y \<le> key x)" using a by (metis not_less)
qed

lemma mset_insertFromBack [simp]: "mset (insertFromBack c x ys) = add_mset x (mset ys)"
  by (induction ys rule: rev_induct) simp_all

lemma set_insertFromBack [simp]: "set (insertFromBack c x ys) = insert x (set ys)"
  using mset_insertFromBack[of c x ys] by (metis set_mset_add_mset_insert set_mset_mset)

lemma sorted_insertFromBack:
  assumes "orders_by c key"
  shows "sorted (map key ys) \<Longrightarrow> sorted (map key (insertFromBack c x ys))"
proof (induction ys rule: rev_induct)
  case Nil
  then show ?case by simp
next
  case (snoc y T)
  then have T: "sorted (map key T)" and le: "\<forall>t \<in> set T. key t \<le> key y"
    by (auto simp add: sorted_append)
  show ?case
  proof (cases "c y x > 0")
    case True
    then have "key x < key y" using orders_byD(2)[OF assms] by simp
    then show ?thesis using True snoc.IH[OF T] le by (auto simp add: sorted_append)
  next
    case False
    then have "key y \<le> key x" using orders_byD(2)[OF assms, of y x] by simp
    then show ?thesis using False snoc.prems le by (auto simp add: sorted_append)
  qed
qed

lemma foldl_insertFromBack:
  assumes "orders_by c key"
  shows "sorted (map key acc) \<Longrightarrow>
         sorted (map key (foldl (\<lambda>acc x. insertFromBack c x acc) acc xs)) \<and>
         mset (foldl (\<lambda>acc x. insertFromBack c x acc) acc xs) = mset acc + mset xs"
  by (induction xs arbitrary: acc) (simp_all add: sorted_insertFromBack[OF assms])

lemma plainInsertionSort_sorts:
  assumes "orders_by c key"
  shows "sorted (map key (plainInsertionSort c xs))" "mset (plainInsertionSort c xs) = mset xs"
  using foldl_insertFromBack[OF assms, of "[]" xs] by (simp_all add: plainInsertionSort_def)

lemma scanDown_spec:
  "scanDown c pivot a i high_start = (h, r) \<Longrightarrow> i < high_start \<Longrightarrow>
   (\<forall>k. h < k \<and> k < high_start \<longrightarrow> 0 < c (a ! k) pivot) \<and>
   (case r of None \<Rightarrow> h = i
    | Some order \<Rightarrow> i < h \<and> order = c (a ! h) pivot \<and> \<not> 0 < order)"
proof (induction c pivot a i high_start rule: scanDown.induct)
  case (1 c pivot a i high_start)
  note eq = "1.prems"(1)[unfolded scanDown.simps[of c pivot a i high_start]]
  show ?case
  proof (cases "high_start - 1 = i")
    case True
    with eq "1.prems"(2) show ?thesis by auto
  next
    case False
    with "1.prems" have lt: "i < high_start - 1" by simp
    show ?thesis
    proof (cases "0 < c (a ! (high_start - 1)) pivot")
      case True
      with eq "1.prems"(2) False
      have rec: "scanDown c pivot a i (high_start - 1) = (h, r)"
        by (simp add: Let_def)
      note ih = "1.IH"[OF _ refl False refl refl True rec lt]
      have "0 < c (a ! k) pivot" if "h < k" "k < high_start" for k
      proof (cases "k = high_start - 1")
        case True
        then show ?thesis using \<open>0 < c (a ! (high_start - 1)) pivot\<close> by simp
      next
        case False
        then have "k < high_start - 1" using that by simp
        then show ?thesis using ih that "1.prems"(2) by simp
      qed
      then show ?thesis using ih "1.prems"(2) by simp
    next
      case c: False
      with eq "1.prems"(2) False lt show ?thesis
        by (auto simp add: Let_def)
    qed
  qed
qed

lemma same_outside_refl: "same_outside from to a a"
  by (simp add: same_outside_def)

lemma same_outside_trans:
  "same_outside from to a b \<Longrightarrow> same_outside from to b c \<Longrightarrow> same_outside from to a c"
  by (simp add: same_outside_def)

lemma same_outside_swap:
  assumes "from \<le> p" "p < to" "from \<le> q" "q < to" "to \<le> length a"
  shows "same_outside from to a (a[p := a ! q, q := a ! p])"
  using assms by (auto simp add: same_outside_def mset_swap)

lemma inv_less:
  assumes "part_inv key pivot from to a le i hs" "i < hs" "key (a ! i) < key pivot"
  shows "part_inv key pivot from to (a[i := a ! le, le := a ! i]) (le + 1) (i + 1) hs"
  using assms unfolding part_inv_def
  by (auto simp add: nth_list_update less_Suc_eq)

lemma inv_equal:
  assumes "part_inv key pivot from to a le i hs" "i < hs" "key (a ! i) = key pivot"
  shows "part_inv key pivot from to a le (i + 1) hs"
  using assms unfolding part_inv_def
  by (auto simp add: less_Suc_eq)

lemma inv_break:
  assumes "part_inv key pivot from to a le i hs" "i < hs" "key pivot < key (a ! i)"
    "\<forall>k. i < k \<and> k < hs \<longrightarrow> key pivot < key (a ! k)"
  shows "part_inv key pivot from to a le i i"
  using assms unfolding part_inv_def
  by (auto simp add: less_Suc_eq) (metis le_neq_implies_less less_imp_le not_le_imp_less)

lemma inv_swap_high:
  assumes "part_inv key pivot from to a le i hs" "i < h" "h < hs" "key pivot < key (a ! i)"
    "\<forall>k. h < k \<and> k < hs \<longrightarrow> key pivot < key (a ! k)"
  shows "part_inv key pivot from to (a[i := a ! h, h := a ! i]) le i h"
  using assms unfolding part_inv_def
  by (auto simp add: nth_list_update less_Suc_eq)
    (metis le_neq_implies_less less_imp_le not_le_imp_less)+

lemma partitionLoop_correct:
  "orders_by c key \<Longrightarrow> part_inv key pivot from to a low_end i high_start \<Longrightarrow>
   partitionLoop c pivot a low_end high_start i = (a', le, hs) \<Longrightarrow>
   part_inv key pivot from to a' le hs hs \<and> same_outside from to a a'"
proof (induction c pivot a low_end high_start i arbitrary: a' le hs rule: partitionLoop.induct)
  case (1 c pivot a low_end high_start i)
  note ord = "1.prems"(1)
  note inv = "1.prems"(2)
  note eq = "1.prems"(3)[unfolded partitionLoop.simps[of c pivot a low_end high_start i]]
  have bnd: "from < low_end" "low_end < i" "i \<le> high_start" "high_start < to" "to \<le> length a"
    using inv by (simp_all add: part_inv_def)
  show ?case
  proof (cases "i < high_start")
    case False
    then have "i = high_start" using bnd by simp
    with eq inv show ?thesis by (simp add: same_outside_refl)
  next
    case lt: True
    consider (less) "c (a ! i) pivot < 0"
      | (greater) "c (a ! i) pivot > 0"
      | (equal) "c (a ! i) pivot = 0" by linarith
    then show ?thesis
    proof cases
      case less
      let ?a1 = "a[i := a ! low_end, low_end := a ! i]"
      from eq lt less have rec: "partitionLoop c pivot ?a1 (low_end + 1) high_start (i + 1) = (a', le, hs)"
        by (simp add: Let_def)
      have "key (a ! i) < key pivot" using less orders_byD(1)[OF ord] by simp
      from inv_less[OF inv lt this]
      have inv1: "part_inv key pivot from to ?a1 (low_end + 1) (i + 1) high_start" .
      from "1.IH"(1)[OF lt refl refl less ord inv1 rec]
      have r: "part_inv key pivot from to a' le hs hs" "same_outside from to ?a1 a'" by simp_all
      have "same_outside from to a ?a1"
        using bnd lt by (intro same_outside_swap) simp_all
      with r show ?thesis using same_outside_trans by blast
    next
      case equal
      from eq lt equal have rec: "partitionLoop c pivot a low_end high_start (i + 1) = (a', le, hs)"
        by (simp add: Let_def)
      have "key (a ! i) = key pivot" using equal orders_byD(3)[OF ord] by simp
      from inv_equal[OF inv lt this]
      have inv1: "part_inv key pivot from to a low_end (i + 1) high_start" .
      from "1.IH"(4)[OF lt refl refl _ _ ord inv1 rec] equal
      show ?thesis by simp
    next
      case greater
      have gi: "key pivot < key (a ! i)" using greater orders_byD(2)[OF ord] by simp
      obtain h r where sd: "scanDown c pivot a i high_start = (h, r)"
        by (cases "scanDown c pivot a i high_start")
      note b = scanDown_bounds[OF sd lt]
      note sp = scanDown_spec[OF sd lt]
      have above: "\<forall>k. h < k \<and> k < high_start \<longrightarrow> key pivot < key (a ! k)"
        using sp orders_byD(2)[OF ord] by simp
      show ?thesis
      proof (cases r)
        case None
        then have hi: "h = i" using sp by simp
        from eq lt greater sd None have res: "a' = a" "le = low_end" "hs = h"
          by (simp_all add: Let_def)
        have "part_inv key pivot from to a low_end i i"
          using inv_break[OF inv lt gi] above hi by simp
        then show ?thesis using res hi by (simp add: same_outside_refl)
      next
        case (Some order)
        then have ih: "i < h" and od: "order = c (a ! h) pivot" and ng: "\<not> 0 < order"
          using sp by simp_all
        have hh: "h < high_start" using b by simp
        let ?a1 = "a[i := a ! h, h := a ! i]"
        from inv_swap_high[OF inv ih hh gi above]
        have inv1: "part_inv key pivot from to ?a1 low_end i h" .
        have so1: "same_outside from to a ?a1"
          using bnd lt ih hh by (intro same_outside_swap) simp_all
        have a1i: "?a1 ! i = a ! h" using ih bnd hh by simp
        show ?thesis
        proof (cases "order < 0")
          case True
          let ?a2 = "?a1[i := ?a1 ! low_end, low_end := ?a1 ! i]"
          from eq lt greater sd Some True
          have rec: "partitionLoop c pivot ?a2 (low_end + 1) h (i + 1) = (a', le, hs)"
            by (simp add: Let_def)
          have "key (?a1 ! i) < key pivot"
            using True od orders_byD(1)[OF ord] a1i by simp
          from inv_less[OF inv1 ih this]
          have inv2: "part_inv key pivot from to ?a2 (low_end + 1) (i + 1) h" .
          from "1.IH"(2)[OF lt refl refl _ greater sd[symmetric] Some refl True refl ord inv2 rec] greater
          have r: "part_inv key pivot from to a' le hs hs" "same_outside from to ?a2 a'" by simp_all
          have "same_outside from to ?a1 ?a2"
            using bnd lt ih hh by (intro same_outside_swap) simp_all
          with so1 r show ?thesis using same_outside_trans by blast
        next
          case False
          from eq lt greater sd Some False
          have rec: "partitionLoop c pivot ?a1 low_end h (i + 1) = (a', le, hs)"
            by (simp add: Let_def)
          have "order = 0" using False ng by simp
          then have "key (?a1 ! i) = key pivot"
            using od orders_byD(3)[OF ord] a1i by simp
          from inv_equal[OF inv1 ih this]
          have inv2: "part_inv key pivot from to ?a1 low_end (i + 1) h" .
          from "1.IH"(3)[OF lt refl refl _ greater sd[symmetric] Some refl False ord inv2 rec] greater
          have r: "part_inv key pivot from to a' le hs hs" "same_outside from to ?a1 a'" by simp_all
          with so1 show ?thesis using same_outside_trans by blast
        qed
      qed
    qed
  qed
qed

lemma medianOfThree_mset:
  "medianOfThree c x0 x1 x2 = (v0, v1, v2) \<Longrightarrow> {#v0, v1, v2#} = {#x0, x1, x2#}"
  by (auto simp add: medianOfThree_def Let_def split: if_splits)

lemma medianOfThree_keys:
  assumes "orders_by c key" "medianOfThree c x0 x1 x2 = (v0, v1, v2)"
  shows "key v0 \<le> key v1 \<and> key v1 \<le> key v2"
  using assms(2) orders_byD(2,5)[OF assms(1)]
  by (auto simp add: medianOfThree_def Let_def split: if_splits)

lemma mset_update_add:
  "i < length xs \<Longrightarrow> add_mset (xs ! i) (mset (xs[i := v])) = add_mset v (mset xs)"
  by (simp add: mset_update)

lemma mset_three_updates:
  assumes "p < length a" "s < length a" "r < length a" "p \<noteq> s" "p \<noteq> r" "s \<noteq> r"
    and "{#v0, v1, v2#} = {#a ! p, a ! s, a ! r#}"
  shows "mset (a[p := v0, s := v2, r := v1]) = mset a"
proof -
  have 1: "add_mset (a ! p) (mset (a[p := v0])) = add_mset v0 (mset a)"
    using assms(1) by (rule mset_update_add)
  have 2: "add_mset (a ! s) (mset (a[p := v0, s := v2])) = add_mset v2 (mset (a[p := v0]))"
    using mset_update_add[of s "a[p := v0]" v2] assms by simp
  have 3: "add_mset (a ! r) (mset (a[p := v0, s := v2, r := v1])) =
           add_mset v1 (mset (a[p := v0, s := v2]))"
    using mset_update_add[of r "a[p := v0, s := v2]" v1] assms by simp
  have "{#a ! p, a ! s, a ! r#} + mset (a[p := v0, s := v2, r := v1]) =
        {#v0, v1, v2#} + mset a"
    using 1 2 3 by (metis (no_types, lifting) add_mset_commute union_mset_add_mset_left empty_neutral(1))
  then show ?thesis using assms(7) by simp
qed

lemma partitionRange_correct:
  assumes ord: "orders_by c key" and big: "10 < to - from" and len: "to \<le> length a"
    and res: "partitionRange c a from to = (a', le, hs)"
  shows "\<exists>pivot. part_inv key pivot from to a' le hs hs \<and> same_outside from to a a'"
proof -
  define t where "t = (from + to) div 2"
  obtain v0 v1 v2 where m: "medianOfThree c (a ! from) (a ! (to - 1)) (a ! t) = (v0, v1, v2)"
    by (cases "medianOfThree c (a ! from) (a ! (to - 1)) (a ! t)") auto
  define a1 where "a1 = a[from := v0, to - 1 := v2]"
  define a3 where "a3 = a1[t := a1 ! (from + 1), from + 1 := v1]"
  have idx: "from + 1 < t" "t < to - 1" "to - 1 < length a" "from < to - 1"
    using big len by (simp_all add: t_def)
  have loop: "partitionLoop c v1 a3 (from + 1) (to - 1) (from + 1 + 1) = (a', le, hs)"
    using res m by (simp add: partitionRange_def Let_def t_def a1_def a3_def)
  define b where "b = a[from := v0, to - 1 := v2, t := v1]"
  have b_perm: "mset b = mset a"
    unfolding b_def using idx medianOfThree_mset[OF m]
    by (intro mset_three_updates) simp_all
  have a3_b: "a3 = b[t := b ! (from + 1), from + 1 := b ! t]"
    using idx by (simp add: a3_def a1_def b_def)
  have "mset (b[t := b ! (from + 1), from + 1 := b ! t]) = mset b"
    using idx by (intro mset_swap) (simp_all add: b_def)
  then have a3_perm: "mset a3 = mset a"
    using b_perm by (simp only: a3_b)
  have keys: "key v0 \<le> key v1" "key v1 \<le> key v2"
    using medianOfThree_keys[OF ord m] by simp_all
  have at: "a3 ! from = v0" "a3 ! (from + 1) = v1" "a3 ! (to - 1) = v2"
    using idx by (simp_all add: a3_def a1_def)
  have inv: "part_inv key v1 from to a3 (from + 1) (from + 1 + 1) (to - 1)"
  proof -
    have "key (a3 ! k) \<le> key v1" if "from \<le> k" "k < from + 1" for k
      using that at keys by (cases "k = from") simp_all
    moreover have "key (a3 ! k) = key v1" if "from + 1 \<le> k" "k < from + 1 + 1" for k
      using that at by (cases "k = from + 1") simp_all
    moreover have "key v1 \<le> key (a3 ! k)" if "to - 1 \<le> k" "k < to" for k
      using that at keys by (cases "k = to - 1") simp_all
    ultimately show ?thesis
      using idx len by (simp add: part_inv_def a3_def a1_def)
  qed
  have so: "same_outside from to a a3"
    using a3_perm idx by (auto simp add: same_outside_def a3_def a1_def)
  from partitionLoop_correct[OF ord inv loop] so
  show ?thesis using same_outside_trans by blast
qed

lemma same_outside_widen:
  "same_outside from' to' a b \<Longrightarrow> from \<le> from' \<Longrightarrow> to' \<le> to \<Longrightarrow> same_outside from to a b"
  by (auto simp add: same_outside_def)

lemma mset_slice_split:
  assumes "from \<le> to" "to \<le> length a"
  shows "mset a = mset (take from a) + mset (segment a from to) + mset (drop to a)"
proof -
  have "mset a = mset (take from a @ segment a from to @ drop to a)"
    using segment_split[OF assms] by simp
  then show ?thesis by simp
qed

lemma same_outside_segment:
  assumes so: "same_outside from to a b" and "from \<le> to" "to \<le> length a"
  shows "mset (segment b from to) = mset (segment a from to)"
proof -
  have len: "length b = length a" and ms: "mset b = mset a"
    and out: "\<forall>k. k < from \<or> to \<le> k \<longrightarrow> b ! k = a ! k"
    using so by (simp_all add: same_outside_def)
  have t: "take from b = take from a"
    using len out assms(2,3) by (intro nth_take_lemma) simp_all
  have d: "drop to b = drop to a"
    using len out by (intro nth_equalityI) simp_all
  have "mset b = mset (take from b) + mset (segment b from to) + mset (drop to b)"
    using assms(2,3) len by (intro mset_slice_split) simp_all
  moreover have "mset a = mset (take from a) + mset (segment a from to) + mset (drop to a)"
    using assms(2,3) by (intro mset_slice_split)
  ultimately show ?thesis using ms t d by simp
qed

lemma segment_map_nth:
  assumes "to \<le> length a"
  shows "segment a from to = map ((!) a) [from..<to]"
proof (rule nth_equalityI)
  show "length (segment a from to) = length (map ((!) a) [from..<to])"
    using assms by (simp add: segment_def)
next
  fix j assume "j < length (segment a from to)"
  then have "j < to - from" by (simp add: segment_def)
  then show "segment a from to ! j = map ((!) a) [from..<to] ! j"
    using assms by (simp add: segment_def)
qed

lemma range_transfer:
  assumes so: "same_outside from to a b" and "from \<le> to" "to \<le> length a"
    and P: "\<forall>k. from \<le> k \<and> k < to \<longrightarrow> P (a ! k)"
  shows "\<forall>k. from \<le> k \<and> k < to \<longrightarrow> P (b ! k)"
proof (intro allI impI)
  fix k assume k: "from \<le> k \<and> k < to"
  have len: "length b = length a" using so by (simp add: same_outside_def)
  have "set (segment b from to) = set (segment a from to)"
    using same_outside_segment[OF so assms(2,3)] by (metis set_mset_mset)
  then have "(!) b ` {from..<to} = (!) a ` {from..<to}"
    using segment_map_nth[OF assms(3), of "from"] segment_map_nth[of "to" b "from"] assms(3) len
    by simp
  moreover have "b ! k \<in> (!) b ` {from..<to}" using k by simp
  ultimately obtain k' where "b ! k = a ! k'" "from \<le> k'" "k' < to" by auto
  then show "P (b ! k)" using P by simp
qed

lemma nth_sandwich:
  assumes "length pre = from" "length ys = to - from" "from \<le> to"
  shows "(pre @ ys @ post) ! k =
         (if k < from then pre ! k else if k < to then ys ! (k - from) else post ! (k - to))"
proof -
  have "k - from - (to - from) = k - to" using assms(3) by simp
  moreover have "k - from < to - from \<longleftrightarrow> k < to" if "\<not> k < from"
    using that assms(3) by auto
  ultimately show ?thesis using assms(1,2) by (simp add: nth_append)
qed

lemma sorted_range_join:
  assumes "\<forall>k. from \<le> k \<and> k < le \<longrightarrow> key (r ! k) \<le> key pivot"
    and "\<forall>k. le \<le> k \<and> k < hs \<longrightarrow> key (r ! k) = key pivot"
    and "\<forall>k. hs \<le> k \<and> k < to \<longrightarrow> key pivot \<le> key (r ! k)"
    and "sorted_range key r from le" and "sorted_range key r hs to"
  shows "sorted_range key r from to"
  unfolding sorted_range_def
proof (intro allI impI)
  fix i j assume ij: "from \<le> i \<and> i < j \<and> j < to"
  have lo: "key (r ! k) \<le> key pivot" if "from \<le> k" "k < hs" for k
    using that assms(1,2) by (cases "k < le") auto
  have hi: "key pivot \<le> key (r ! k)" if "le \<le> k" "k < to" for k
    using that assms(2,3) by (cases "k < hs") auto
  consider "j < le" | "i < le" "le \<le> j" | "le \<le> i" "i < hs" | "hs \<le> i" by linarith
  then show "key (r ! i) \<le> key (r ! j)"
  proof cases
    case 1
    then show ?thesis using assms(4) ij by (simp add: sorted_range_def)
  next
    case 2
    then have "key (r ! i) \<le> key pivot" "key pivot \<le> key (r ! j)"
      using assms(1) hi ij by simp_all
    then show ?thesis by (rule order_trans)
  next
    case 3
    then have "key (r ! i) \<le> key pivot" "key pivot \<le> key (r ! j)"
      using lo hi ij by simp_all
    then show ?thesis by (rule order_trans)
  next
    case 4
    then show ?thesis using assms(5) ij by (simp add: sorted_range_def)
  qed
qed

lemma insertionSort_correct:
  assumes ord: "orders_by c key" and "from \<le> to" "to \<le> length a"
  shows "same_outside from to a (insertionSort c a from to) \<and>
         sorted_range key (insertionSort c a from to) from to"
proof -
  define ys where "ys = plainInsertionSort c (segment a from to)"
  define b where "b = take from a @ ys @ drop to a"
  have eq: "insertionSort c a from to = b"
    using insertionSort_refines[OF assms(2,3)] by (simp add: ys_def b_def)
  have ms: "mset ys = mset (segment a from to)" and st: "sorted (map key ys)"
    using plainInsertionSort_sorts[OF ord] by (simp_all add: ys_def)
  have "length ys = length (segment a from to)"
    using ms by (rule mset_eq_length)
  then have ly: "length ys = to - from"
    using assms(2,3) by (simp add: segment_def)
  have lt: "length (take from a) = from" using assms by simp
  note nth = nth_sandwich[OF lt ly assms(2), of "drop to a", folded b_def]
  have "mset b = mset a"
    using ms mset_slice_split[OF assms(2,3)] by (simp add: b_def)
  moreover have "length b = length a"
    using ly assms by (simp add: b_def)
  moreover have "b ! k = a ! k" if "k < from \<or> to \<le> k" for k
    using that assms by (auto simp add: nth)
  ultimately have so: "same_outside from to a b"
    by (simp add: same_outside_def)
  have "key (b ! i) \<le> key (b ! j)" if "from \<le> i" "i < j" "j < to" for i j
  proof -
    have "b ! i = ys ! (i - from)" "b ! j = ys ! (j - from)"
      using that by (simp_all add: nth)
    moreover have "key (ys ! (i - from)) \<le> key (ys ! (j - from))"
      using st that ly sorted_nth_mono[of "map key ys" "i - from" "j - from"] by simp
    ultimately show ?thesis by simp
  qed
  then show ?thesis using so eq by (simp add: sorted_range_def)
qed

lemma same_outside_length: "same_outside from to a b \<Longrightarrow> length b = length a"
  by (simp add: same_outside_def)

lemma same_outside_nth:
  "same_outside from to a b \<Longrightarrow> k < from \<or> to \<le> k \<Longrightarrow> b ! k = a ! k"
  by (auto simp add: same_outside_def)

lemma quickSort_correct:
  "orders_by c key \<Longrightarrow> from \<le> to \<Longrightarrow> to \<le> length a \<Longrightarrow>
   same_outside from to a (quickSort c a from to) \<and>
   sorted_range key (quickSort c a from to) from to"
proof (induction c a "from" "to" rule: quickSort.induct)
  case (1 c a "from" "to")
  note ord = "1.prems"(1) and le = "1.prems"(2) and len = "1.prems"(3)
  show ?case
  proof (cases "to - from \<le> 10")
    case True
    then have "quickSort c a from to = insertionSort c a from to"
      by (simp add: quickSort.simps[of c a "from" "to"])
    then show ?thesis using insertionSort_correct[OF ord le len] by simp
  next
    case False
    then have big: "10 < to - from" by simp
    obtain a4 low hs where pr: "partitionRange c a from to = (a4, low, hs)"
      by (cases "partitionRange c a from to") auto
    obtain pivot where inv: "part_inv key pivot from to a4 low hs hs"
      and so: "same_outside from to a a4"
      using partitionRange_correct[OF ord big len pr] by blast
    have bnd: "from < low" "low < hs" "hs < to" "to \<le> length a4"
      using inv by (simp_all add: part_inv_def)
    have lowp: "\<forall>k. from \<le> k \<and> k < low \<longrightarrow> key (a4 ! k) \<le> key pivot"
      and midp: "\<forall>k. low \<le> k \<and> k < hs \<longrightarrow> key (a4 ! k) = key pivot"
      and highp: "\<forall>k. hs \<le> k \<and> k < to \<longrightarrow> key pivot \<le> key (a4 ! k)"
      using inv by (simp_all add: part_inv_def)
    show ?thesis
    proof (cases "to - hs < low - from")
      case True
      define b where "b = quickSort c a4 hs to"
      define r where "r = quickSort c b from low"
      have res: "quickSort c a from to = r"
        using False pr True by (simp add: quickSort.simps[of c a "from" "to"] b_def r_def)
      have ih1: "same_outside hs to a4 b" "sorted_range key b hs to"
        using "1.IH"(1)[OF False pr[symmetric] refl True ord _ bnd(4)] bnd by (simp_all add: b_def)
      have lb: "length b = length a4" using ih1(1) by (rule same_outside_length)
      have ih2: "same_outside from low b r" "sorted_range key r from low"
        using "1.IH"(2)[OF False pr[symmetric] refl True ord] bnd lb by (simp_all add: b_def r_def)
      have rb: "r ! k = b ! k" if "low \<le> k" for k
        using same_outside_nth[OF ih2(1)] that by simp
      have ba: "b ! k = a4 ! k" if "k < hs" for k
        using same_outside_nth[OF ih1(1)] that by simp
      have A: "\<forall>k. from \<le> k \<and> k < low \<longrightarrow> key (r ! k) \<le> key pivot"
        using lowp ba bnd lb by (intro range_transfer[OF ih2(1)]) simp_all
      have E: "\<forall>k. low \<le> k \<and> k < hs \<longrightarrow> key (r ! k) = key pivot"
        using midp rb ba by simp
      have "\<forall>k. hs \<le> k \<and> k < to \<longrightarrow> key pivot \<le> key (b ! k)"
        using highp bnd by (intro range_transfer[OF ih1(1)]) simp_all
      then have H: "\<forall>k. hs \<le> k \<and> k < to \<longrightarrow> key pivot \<le> key (r ! k)"
        using rb bnd by simp
      have D: "sorted_range key r hs to"
        using ih1(2) rb bnd by (simp add: sorted_range_def)
      have sr: "sorted_range key r from to"
        using sorted_range_join[OF A E H ih2(2) D] .
      have "same_outside from to a4 b" "same_outside from to b r"
        using ih1(1) ih2(1) bnd by (auto intro: same_outside_widen)
      then have "same_outside from to a r"
        using so same_outside_trans by blast
      then show ?thesis using sr res by simp
    next
      case nt: False
      define b where "b = quickSort c a4 from low"
      define r where "r = quickSort c b hs to"
      have res: "quickSort c a from to = r"
        using False pr nt by (simp add: quickSort.simps[of c a "from" "to"] b_def r_def)
      have ih1: "same_outside from low a4 b" "sorted_range key b from low"
        using "1.IH"(3)[OF False pr[symmetric] refl nt ord] bnd by (simp_all add: b_def)
      have lb: "length b = length a4" using ih1(1) by (rule same_outside_length)
      have ih2: "same_outside hs to b r" "sorted_range key r hs to"
        using "1.IH"(4)[OF False pr[symmetric] refl nt ord] bnd lb by (simp_all add: b_def r_def)
      have rb: "r ! k = b ! k" if "k < hs" for k
        using same_outside_nth[OF ih2(1)] that by simp
      have ba: "b ! k = a4 ! k" if "low \<le> k" for k
        using same_outside_nth[OF ih1(1)] that by simp
      have "\<forall>k. from \<le> k \<and> k < low \<longrightarrow> key (b ! k) \<le> key pivot"
        using lowp bnd by (intro range_transfer[OF ih1(1)]) simp_all
      then have A: "\<forall>k. from \<le> k \<and> k < low \<longrightarrow> key (r ! k) \<le> key pivot"
        using rb bnd by simp
      have E: "\<forall>k. low \<le> k \<and> k < hs \<longrightarrow> key (r ! k) = key pivot"
        using midp rb ba by simp
      have H: "\<forall>k. hs \<le> k \<and> k < to \<longrightarrow> key pivot \<le> key (r ! k)"
        using highp ba bnd lb by (intro range_transfer[OF ih2(1)]) simp_all
      have C: "sorted_range key r from low"
        using ih1(2) rb bnd by (simp add: sorted_range_def)
      have sr: "sorted_range key r from to"
        using sorted_range_join[OF A E H C ih2(2)] .
      have "same_outside from to a4 b" "same_outside from to b r"
        using ih1(1) ih2(1) bnd by (auto intro: same_outside_widen)
      then have "same_outside from to a r"
        using so same_outside_trans by blast
      then show ?thesis using sr res by simp
    qed
  qed
qed

lemma sort_items_correct:
  assumes "orders_by c key"
  shows "sorted (map key (sort_items c items))" "mset (sort_items c items) = mset items"
proof -
  have so: "same_outside 0 (length items) items (sort_items c items)"
    and sr: "sorted_range key (sort_items c items) 0 (length items)"
    using quickSort_correct[OF assms, of 0 "length items" items] by (simp_all add: sort_items_def)
  show "mset (sort_items c items) = mset items" using so by (simp add: same_outside_def)
  have "length (sort_items c items) = length items" using so by (simp add: same_outside_def)
  then show "sorted (map key (sort_items c items))"
    using sr by (simp add: sorted_iff_nth_mono_less sorted_range_def)
qed

lemma orders_by_near: "orders_by compareFromNearToFar sortKey"
  by (auto simp add: orders_by_def compareFromNearToFar_def sortKey_def less_prod_def)

lemma orders_by_far: "orders_by compareFromFarToNear farKey"
  by (auto simp add: orders_by_def compareFromFarToNear_def farKey_def less_prod_def)

lemma sorted_near: "sorted (map sortKey xs) = sorted_wrt nearToFarOrder xs"
proof -
  have "(\<lambda>a b. sortKey a \<le> sortKey b) = (nearToFarOrder :: 'a renderElement \<Rightarrow> _)"
    by (intro ext) (auto simp add: sortKey_def nearToFarOrder_def less_eq_prod_def)
  then show ?thesis by (simp add: sorted_map)
qed

lemma sorted_far: "sorted (map farKey xs) = sorted_wrt farToNearOrder xs"
proof -
  have "(\<lambda>a b. farKey a \<le> farKey b) = (farToNearOrder :: 'a renderElement \<Rightarrow> _)"
    by (intro ext) (auto simp add: farKey_def farToNearOrder_def less_eq_prod_def)
  then show ?thesis by (simp add: sorted_map)
qed

lemmas sort_eval = sort_items_def quickSort.simps insertionSort_def insertionSortFrom.simps
  insertionLoop.simps partitionRange_def medianOfThree_def partitionLoop.simps scanDown.simps
  compareFromNearToFar_def compareFromFarToNear_def element_def Let_def

text \<open>
  C1. For every array of render elements, \<open>sort\<close> with the near-to-far comparator
  returns the same elements in an order that is non-decreasing in the lexicographic key
  (priority, distance); with the far-to-near comparator the order is non-decreasing in
  priority and, among elements of equal priority, non-increasing in distance. The elements
  with keys (0,5), (0,1), (1,0) come out near to far as (0,1), (0,5), (1,0).
\<close>

theorem sort_orders_by_priority_then_distance:
  "sorted_wrt nearToFarOrder (sort_items compareFromNearToFar items) \<and>
   mset (sort_items compareFromNearToFar items) = mset items \<and>
   sorted_wrt farToNearOrder (sort_items compareFromFarToNear items) \<and>
   mset (sort_items compareFromFarToNear items) = mset items \<and>
   sort_items compareFromNearToFar [element 0 5 x, element 0 1 y, element 1 0 z] =
     [element 0 1 y, element 0 5 x, element 1 0 z]"
proof -
  have "sort_items compareFromNearToFar [element 0 5 x, element 0 1 y, element 1 0 z] =
     [element 0 1 y, element 0 5 x, element 1 0 z]"
    by (simp add: sort_eval)
  then show ?thesis
    using sort_items_correct[OF orders_by_near, of items]
      sort_items_correct[OF orders_by_far, of items]
    by (simp add: sorted_near sorted_far)
qed

text \<open>
  C4. On an array of at most ten elements \<open>sort\<close> returns, element for element, what
  the plain insertion sort returns, whatever the comparator is: no property of the
  comparator is assumed.
\<close>

theorem short_sort_is_insertion_sort:
  "length items \<le> 10 \<Longrightarrow> sort_items compareFunc items = plainInsertionSort compareFunc items"
proof -
  assume "length items \<le> 10"
  then have "sort_items compareFunc items = insertionSort compareFunc items 0 (length items)"
    by (simp add: sort_items_def quickSort.simps[of compareFunc items 0 "length items"])
  then show ?thesis
    using insertionSort_refines[of 0 "length items" items compareFunc]
    by (simp add: segment_def)
qed

theorem short_sort_is_insertion_sort_witness:
  "length [element 0 5 ''a'', element 0 1 ''b'', element 1 0 ''c''] \<le> 10 \<and>
   sort_items compareFromNearToFar [element 0 5 ''a'', element 0 1 ''b'', element 1 0 ''c''] =
     plainInsertionSort compareFromNearToFar
       [element 0 5 ''a'', element 0 1 ''b'', element 1 0 ''c''] \<and>
   plainInsertionSort compareFromNearToFar
       [element 0 5 ''a'', element 0 1 ''b'', element 1 0 ''c''] =
     [element 0 1 ''b'', element 0 5 ''a'', element 1 0 ''c''] \<and>
   sort_items (\<lambda>a b. 1) [1, 2, 3 :: nat] = plainInsertionSort (\<lambda>a b. 1) [1, 2, 3] \<and>
   plainInsertionSort (\<lambda>a b. 1) [1, 2, 3 :: nat] = [3, 2, 1]"
  using short_sort_is_insertion_sort
      [of "[element 0 5 ''a'', element 0 1 ''b'', element 1 0 ''c'']" compareFromNearToFar]
    short_sort_is_insertion_sort [of "[1, 2, 3 :: nat]" "\<lambda>a b. 1"]
  by (simp add: plainInsertionSort_def insertFromBack.simps compareFromNearToFar_def element_def)

text \<open>
  C5 as stated fails. \<open>tied_run\<close> is sorted near to far, and \<open>sort\<close> returns it
  with its second and third elements, which have equal keys, exchanged: the median-of-three
  step moves the second element into the middle of the array, and the insertion sort of
  the lower part puts it back behind its equal.
\<close>

theorem sorted_run_with_tie_is_reordered:
  "sorted_wrt nearToFarOrder tied_run \<and> sort_items compareFromNearToFar tied_run \<noteq> tied_run"
  by (simp add: tied_run_def nearToFarOrder_def sort_eval)

lemma insertFromBack_sorted_end:
  assumes "orders_by c key" "sorted (map key (acc @ [x]))"
  shows "insertFromBack c x acc = acc @ [x]"
proof (cases acc rule: rev_cases)
  case Nil
  then show ?thesis by simp
next
  case (snoc T y)
  then have "key y \<le> key x" using assms(2) by (simp add: sorted_append)
  then have "\<not> 0 < c y x" using orders_byD(2)[OF assms(1), of y x] by simp
  then show ?thesis using snoc by simp
qed

lemma foldl_insertFromBack_sorted:
  assumes "orders_by c key"
  shows "sorted (map key (acc @ xs)) \<Longrightarrow>
         foldl (\<lambda>acc x. insertFromBack c x acc) acc xs = acc @ xs"
proof (induction xs arbitrary: acc)
  case Nil
  then show ?case by simp
next
  case (Cons x xs)
  have "sorted (map key (acc @ [x]))"
    using Cons.prems by (simp add: sorted_append)
  then have "insertFromBack c x acc = acc @ [x]"
    by (rule insertFromBack_sorted_end[OF assms])
  then show ?case using Cons.IH[of "acc @ [x]"] Cons.prems by simp
qed

lemma plainInsertionSort_sorted:
  assumes "orders_by c key" "sorted (map key xs)"
  shows "plainInsertionSort c xs = xs"
  using foldl_insertFromBack_sorted[OF assms(1), of "[]" xs] assms(2)
  by (simp add: plainInsertionSort_def)

lemma sorted_input_general:
  fixes key :: "'a \<Rightarrow> 'k::linorder"
  assumes ord: "orders_by c key" and st: "sorted (map key items)"
  shows "map key (sort_items c items) = map key items"
    and "length items \<le> 10 \<or> distinct (map key items) \<Longrightarrow> sort_items c items = items"
proof -
  have s: "sorted (map key (sort_items c items))" and m: "mset (sort_items c items) = mset items"
    using sort_items_correct[OF ord] by simp_all
  have "mset (map key (sort_items c items)) = mset (map key items)"
    using m by simp
  then show keys: "map key (sort_items c items) = map key items"
    using s st by (metis properties_for_sort)
  assume "length items \<le> 10 \<or> distinct (map key items)"
  then show "sort_items c items = items"
  proof
    assume "length items \<le> 10"
    then show ?thesis
      using short_sort_is_insertion_sort[of items c] plainInsertionSort_sorted[OF ord st] by simp
  next
    assume "distinct (map key items)"
    then have "inj_on key (set items)" by (simp add: distinct_map)
    moreover have "set (sort_items c items) = set items"
      using m by (metis set_mset_mset)
    ultimately show ?thesis using keys by (intro map_inj_on[of key]) simp_all
  qed
qed

lemma sortKey_farKey: "sortKey e = (fst (farKey e), - snd (farKey e))"
  by (simp add: sortKey_def farKey_def)

lemma farKey_sortKey: "farKey e = (fst (sortKey e), - snd (sortKey e))"
  by (simp add: sortKey_def farKey_def)

text \<open>
  C5, amended. When the array is already sorted with respect to the comparator, near to
  far or far to near, \<open>sort\<close> leaves the sequence of (priority, distance) keys as it
  was; and it leaves every element in its position when the array has at most ten
  elements or no two of its elements have the same key.
\<close>

theorem sorted_input_keeps_keys:
  "(sorted_wrt nearToFarOrder items \<longrightarrow>
      map sortKey (sort_items compareFromNearToFar items) = map sortKey items \<and>
      (length items \<le> 10 \<or> distinct (map sortKey items) \<longrightarrow>
         sort_items compareFromNearToFar items = items)) \<and>
   (sorted_wrt farToNearOrder items \<longrightarrow>
      map sortKey (sort_items compareFromFarToNear items) = map sortKey items \<and>
      (length items \<le> 10 \<or> distinct (map sortKey items) \<longrightarrow>
         sort_items compareFromFarToNear items = items))"
proof (intro conjI impI)
  assume "sorted_wrt nearToFarOrder items"
  then have st: "sorted (map sortKey items)" by (simp add: sorted_near)
  show "map sortKey (sort_items compareFromNearToFar items) = map sortKey items"
    using sorted_input_general(1)[OF orders_by_near st] .
  assume "length items \<le> 10 \<or> distinct (map sortKey items)"
  then show "sort_items compareFromNearToFar items = items"
    using sorted_input_general(2)[OF orders_by_near st] by simp
next
  assume "sorted_wrt farToNearOrder items"
  then have st: "sorted (map farKey items)" by (simp add: sorted_far)
  have "map farKey (sort_items compareFromFarToNear items) = map farKey items"
    using sorted_input_general(1)[OF orders_by_far st] .
  then have "map (\<lambda>k. (fst k, - snd k)) (map farKey (sort_items compareFromFarToNear items)) =
             map (\<lambda>k. (fst k, - snd k)) (map farKey items)" by simp
  then show "map sortKey (sort_items compareFromFarToNear items) = map sortKey items"
    by (simp add: sortKey_farKey[abs_def] comp_def)
  assume h: "length items \<le> 10 \<or> distinct (map sortKey items)"
  have "distinct (map farKey items)" if "distinct (map sortKey items)"
  proof -
    have "inj_on sortKey (set items)" "distinct items" using that by (simp_all add: distinct_map)
    then have "inj_on farKey (set items)"
      by (auto simp add: inj_on_def farKey_def sortKey_def)
    then show ?thesis using \<open>distinct items\<close> by (simp add: distinct_map)
  qed
  with h show "sort_items compareFromFarToNear items = items"
    using sorted_input_general(2)[OF orders_by_far st] by blast
qed

theorem sorted_input_keeps_keys_witness:
  "sorted_wrt nearToFarOrder tied_run \<and>
   map sortKey (sort_items compareFromNearToFar tied_run) = map sortKey tied_run \<and>
   sorted_wrt nearToFarOrder clear_run \<and> distinct (map sortKey clear_run) \<and>
   sort_items compareFromNearToFar clear_run = clear_run \<and>
   sorted_wrt farToNearOrder (far_run) \<and> distinct (map sortKey (far_run)) \<and>
   sort_items compareFromFarToNear (far_run) = far_run \<and>
   length (take 3 tied_run) \<le> 10 \<and> sorted_wrt nearToFarOrder (take 3 tied_run) \<and>
   sort_items compareFromNearToFar (take 3 tied_run) = take 3 tied_run"
  using sorted_input_keeps_keys [of tied_run] sorted_input_keeps_keys [of clear_run]
    sorted_input_keeps_keys [of far_run] sorted_input_keeps_keys [of "take 3 tied_run"]
  by (simp add: tied_run_def clear_run_def far_run_def nearToFarOrder_def farToNearOrder_def sortKey_def
      element_def)

end
